theory Spec2Isabelle
  imports Complex_Main
begin

section \<open>JavaScript values used by the inventory front end\<close>

subsection \<open>Numbers\<close>

text \<open>
  A JavaScript \<open>number\<close> is \<open>NaN\<close>, one of the two infinities, or a finite value.
  Finite values are kept as exact rationals: every finite double is a finite decimal,
  and the model identifies a double with the shortest decimal that denotes it (the one
  \<open>Number.prototype.toString\<close> prints).  Rounding to 64 bits and the sign of zero are
  not modelled: a numeral that is no double (more than 17 significant digits, or beyond
  the range of doubles, where JavaScript gives \<open>Infinity\<close> or 0) keeps its exact value
  in \<open>parseFloat\<close> and \<open>parseInt\<close> below.
\<close>

datatype number = NaN | PInf | NInf | Fin rat


text \<open>\<open>a > b\<close>: every comparison with \<open>NaN\<close> is false.\<close>

fun num_gt :: "number \<Rightarrow> number \<Rightarrow> bool" where
  "num_gt NaN _ = False"
| "num_gt _ NaN = False"
| "num_gt PInf b = (b \<noteq> PInf)"
| "num_gt NInf _ = False"
| "num_gt (Fin a) PInf = False"
| "num_gt (Fin a) NInf = True"
| "num_gt (Fin a) (Fin b) = (b < a)"








subsection \<open>Decimal digits\<close>

text \<open>Character codes and the values of digits are integers.\<close>

definition is_digit :: "char \<Rightarrow> bool" where
  "is_digit c = (48 \<le> (of_char c :: int) \<and> (of_char c :: int) \<le> 57)"

definition digit_val :: "char \<Rightarrow> int" where
  "digit_val c = of_char c - 48"

definition digit_char :: "int \<Rightarrow> char" where
  "digit_char d = char_of (48 + d)"

text \<open>The decimal numeral of an integer \<open>n \<ge> 0\<close>, without leading zeros.\<close>

function digits_of :: "int \<Rightarrow> string" where
  "digits_of n = (if n < 10 then [digit_char n] else digits_of (n div 10) @ [digit_char (n mod 10)])"
  by pat_completeness auto
termination
  by (relation "measure nat") auto

declare digits_of.simps [simp del]

text \<open>The value of a string of decimal digits, most significant digit first.\<close>

definition digits_val :: "string \<Rightarrow> int" where
  "digits_val ds = foldl (\<lambda>acc c. 10 * acc + digit_val c) 0 ds"

text \<open>
  How often the base \<open>b\<close> divides \<open>q\<close>.  A finite decimal in lowest terms has a
  denominator \<open>2 ^ i * 5 ^ j\<close>, and \<open>max i j\<close> digits after the decimal point.
\<close>

function factor_count :: "int \<Rightarrow> int \<Rightarrow> nat" where
  "factor_count b q = (if 1 < b \<and> 0 < q \<and> q mod b = 0 then Suc (factor_count b (q div b)) else 0)"
  by pat_completeness auto
termination
  by (relation "measure (\<lambda>p. nat (snd p))") (auto simp: int_div_less_self)

declare factor_count.simps [simp del]

definition frac_len :: "rat \<Rightarrow> nat" where
  "frac_len a = (let q = snd (quotient_of a) in max (factor_count 2 q) (factor_count 5 q))"

definition pad_left :: "nat \<Rightarrow> string \<Rightarrow> string" where
  "pad_left e ds = replicate (e - length ds) CHR ''0'' @ ds"

definition strip_trailing_zeros :: "string \<Rightarrow> string" where
  "strip_trailing_zeros ds = rev (dropWhile (\<lambda>c. c = CHR ''0'') (rev ds))"

subsection \<open>\<open>Number.prototype.toString\<close>\<close>

text \<open>
  For a positive finite value the standard takes integers \<open>n\<close>, \<open>k\<close> and \<open>s\<close> with
  \<open>k \<ge> 1\<close>, \<open>10 ^ (k - 1) \<le> s < 10 ^ k\<close>, value \<open>s * 10 ^ (n - k)\<close> and \<open>k\<close> as small as
  possible.  \<open>sig_digits\<close> returns the \<open>k\<close> digits of \<open>s\<close> together with \<open>n\<close>: it writes
  the value with \<open>e\<close> digits after the point, as the digits \<open>ip\<close> before and \<open>fd\<close> after
  it, and drops the zeros at both ends.
\<close>

definition sig_digits :: "rat \<Rightarrow> string \<times> int" where
  "sig_digits a =
     (let e = frac_len a; m = \<lfloor>a * 10 ^ e\<rfloor>;
          ip = m div 10 ^ e;
          fd = (if e = 0 then [] else pad_left e (digits_of (m mod 10 ^ e)))
      in if 0 < ip
         then (strip_trailing_zeros (digits_of ip @ fd), int (length (digits_of ip)))
         else let z = length (takeWhile (\<lambda>c. c = CHR ''0'') fd)
              in (strip_trailing_zeros (drop z fd), - int z))"

definition exponent_suffix :: "int \<Rightarrow> string" where
  "exponent_suffix e = CHR ''e'' # (if 0 \<le> e then CHR ''+'' else CHR ''-'') # digits_of \<bar>e\<bar>"

definition pos_toString :: "rat \<Rightarrow> string" where
  "pos_toString a =
     (let (s, n) = sig_digits a; k = int (length s)
      in if k \<le> n \<and> n \<le> 21 then s @ replicate (nat (n - k)) CHR ''0''
         else if 0 < n \<and> n \<le> 21 then take (nat n) s @ CHR ''.'' # drop (nat n) s
         else if - 6 < n \<and> n \<le> 0 then ''0.'' @ replicate (nat (- n)) CHR ''0'' @ s
         else if k = 1 then s @ exponent_suffix (n - 1)
         else take 1 s @ CHR ''.'' # drop 1 s @ exponent_suffix (n - 1))"

fun toString :: "number \<Rightarrow> string" where
  "toString NaN = ''NaN''"
| "toString PInf = ''Infinity''"
| "toString NInf = ''-Infinity''"
| "toString (Fin q) =
     (if q = 0 then ''0''
      else if q < 0 then CHR ''-'' # pos_toString (- q)
      else pos_toString q)"

subsection \<open>\<open>parseFloat\<close> and \<open>parseInt\<close>\<close>

text \<open>
  White space and line terminators among the characters a \<open>string\<close> holds: tab, line
  feed, vertical tab, form feed, carriage return, space and the no-break space.
\<close>

definition is_space :: "char \<Rightarrow> bool" where
  "is_space c = ((of_char c :: int) \<in> {9, 10, 11, 12, 13, 32, 160})"

text \<open>An optional sign: whether it is \<open>-\<close>, and the rest of the text.\<close>

fun take_sign :: "string \<Rightarrow> bool \<times> string" where
  "take_sign [] = (False, [])"
| "take_sign (c # cs) =
     (if c = CHR ''-'' then (True, cs) else if c = CHR ''+'' then (False, cs) else (False, c # cs))"

text \<open>
  The exponent part \<open>e\<close> or \<open>E\<close>, an optional sign and at least one digit; without a
  digit the text has no exponent part and the exponent is 0.
\<close>

fun exponent_part :: "string \<Rightarrow> int" where
  "exponent_part [] = 0"
| "exponent_part (c # cs) =
     (if c = CHR ''e'' \<or> c = CHR ''E''
      then (let (neg, r) = take_sign cs; ds = takeWhile is_digit r
            in if ds = [] then 0
               else if neg then - digits_val ds else digits_val ds)
      else 0)"

text \<open>
  \<open>parseFloat\<close> skips leading white space, takes an optional sign and reads the longest
  prefix of what follows that is a decimal literal: \<open>Infinity\<close>, or digits with an
  optional fraction and an optional exponent, with at least one digit before the
  exponent.  Without such a prefix the result is \<open>NaN\<close>.  \<open>parse_unsigned\<close> reads the
  literal after the sign; \<open>neg\<close> says that the sign was \<open>-\<close>.
\<close>

definition parse_unsigned :: "bool \<Rightarrow> string \<Rightarrow> number" where
  "parse_unsigned neg u =
     (if take 8 u = ''Infinity'' then (if neg then NInf else PInf)
      else
        let ip = takeWhile is_digit u; r1 = dropWhile is_digit u;
            (fp, r2) = (case r1 of
                          [] \<Rightarrow> ([], r1)
                        | c # r \<Rightarrow> if c = CHR ''.''
                                   then (takeWhile is_digit r, dropWhile is_digit r)
                                   else ([], r1))
        in if ip = [] \<and> fp = [] then NaN
           else
             let m = (of_int (digits_val (ip @ fp)) / 10 ^ length fp) * (10 powi exponent_part r2)
             in Fin (if neg then - m else m))"

definition parseFloat :: "string \<Rightarrow> number" where
  "parseFloat str = (let (neg, u) = take_sign (dropWhile is_space str) in parse_unsigned neg u)"

text \<open>
  \<open>parseInt(str, 10)\<close> skips leading white space, reads an optional sign and the
  digits that follow; without a digit the result is \<open>NaN\<close>.
\<close>

definition parseInt :: "string \<Rightarrow> number" where
  "parseInt str =
     (let (neg, u) = take_sign (dropWhile is_space str); ds = takeWhile is_digit u
      in if ds = [] then NaN
         else Fin (if neg then - of_int (digits_val ds) else of_int (digits_val ds)))"


subsection \<open>Strings\<close>

text \<open>
  A string is a list of characters with codes below 256, so the model covers texts in
  that range; there \<open>length\<close> counts what JavaScript's \<open>length\<close> counts.

  \<open>a || b\<close> on strings: the empty string is falsy.
\<close>

definition str_or :: "string \<Rightarrow> string \<Rightarrow> string" where
  "str_or a b = (if a = [] then b else a)"

text \<open>A string that may be \<open>undefined\<close> or \<open>null\<close> is truthy when it is present and not empty.\<close>

fun str_truthy :: "string option \<Rightarrow> bool" where
  "str_truthy None = False"
| "str_truthy (Some s) = (s \<noteq> [])"

text \<open>\<open>s || undefined\<close>.\<close>

definition str_or_undefined :: "string \<Rightarrow> string option" where
  "str_or_undefined s = (if s = [] then None else Some s)"

text \<open>\<open>toUpperCase\<close> on the letters \<open>a\<close> to \<open>z\<close>; other characters are kept.\<close>

definition upper_char :: "char \<Rightarrow> char" where
  "upper_char c =
     (if 97 \<le> (of_char c :: int) \<and> (of_char c :: int) \<le> 122 then char_of (of_char c - 32 :: int) else c)"

definition toUpperCase :: "string \<Rightarrow> string" where
  "toUpperCase s = map upper_char s"

text \<open>\<open>trim\<close> removes white space at both ends.\<close>

definition trim :: "string \<Rightarrow> string" where
  "trim s = rev (dropWhile is_space (rev (dropWhile is_space s)))"

section \<open>The URL query string\<close>

text \<open>
  \<open>URLSearchParams\<close> is an ordered list of name and value pairs.  \<open>get\<close> returns the
  first value of a name, \<open>set\<close> overwrites the first pair of the name and drops the
  others, or appends a pair.  The address bar holds the serialised list; writing the
  list with \<open>setSearchParams\<close> and reading it back with \<open>useSearchParams\<close> is taken to
  return the same pairs.
\<close>

type_synonym URLSearchParams = "(string \<times> string) list"

definition usp_get :: "URLSearchParams \<Rightarrow> string \<Rightarrow> string option" where
  "usp_get ps k = map_of ps k"

fun usp_set :: "string \<Rightarrow> string \<Rightarrow> URLSearchParams \<Rightarrow> URLSearchParams" where
  "usp_set k v [] = [(k, v)]"
| "usp_set k v (p # ps) =
     (if fst p = k then (k, v) # filter (\<lambda>q. fst q \<noteq> k) ps else p # usp_set k v ps)"

section \<open>Data model (types/index.ts)\<close>

record ProductFilters =
  search :: "string option"
  category :: "string option"
  minPrice :: "number option"
  maxPrice :: "number option"
  inStock :: "bool option"

definition no_filters :: ProductFilters where
  "no_filters = \<lparr>search = None, category = None, minPrice = None, maxPrice = None, inStock = None\<rparr>"

datatype stock_status = OUT_OF_STOCK | LOW_STOCK | IN_STOCK

text \<open>The fields of \<open>Product\<close> carry the prefix \<open>p_\<close>; \<open>p_id\<close> is the field \<open>_id\<close>.\<close>

record Product =
  p_id :: string
  p_name :: string
  p_description :: "string option"
  p_sku :: string
  p_category :: string
  p_price :: number
  p_quantity :: number
  p_minStockLevel :: number
  p_images :: "string list"
  p_isActive :: bool
  p_userId :: string
  p_createdAt :: string
  p_updatedAt :: string
  p_isLowStock :: "bool option"
  p_stockStatus :: "stock_status option"

record Pagination =
  page :: number
  limit :: number
  total :: number
  pages :: number

record ProductsResponse =
  data :: "Product list"
  pagination :: Pagination


section \<open>Query cache and mutations (hooks/useProducts.ts)\<close>

text \<open>
  The key of a list query is \<open>productKeys.list(filters, page, limit)\<close>, the key of a
  detail query is the product identifier.  A query without data is absent from the map.
  \<open>stale_lists\<close> are the list queries marked by \<open>invalidateQueries\<close>; \<open>toasts\<close> are the
  notifications shown so far (their text without the trailing emoji).
\<close>

type_synonym ListKey = "ProductFilters \<times> number \<times> number"

datatype toast = ToastSuccess string | ToastError string

record QueryClient =
  list_queries :: "ListKey \<rightharpoonup> ProductsResponse"
  detail_queries :: "string \<rightharpoonup> Product"
  stale_lists :: "ListKey set"
  toasts :: "toast list"




subsection \<open>useCreateProduct\<close>




subsection \<open>useUpdateProduct\<close>




subsection \<open>useDeleteProduct\<close>






section \<open>The product store (stores/productStore.ts)\<close>











section \<open>The products page (pages/Products.tsx)\<close>

subsection \<open>State\<close>

text \<open>
  A pending \<open>setTimeout\<close> of the search box: its identifier, the time at which it is
  due, and the two variables its callback closes over, the typed \<open>value\<close> and the
  \<open>filters\<close> of the enclosing \<open>handleSearchChange\<close>.
\<close>

record timer =
  timer_id :: nat
  deadline :: nat
  timer_value :: string
  timer_filters :: ProductFilters

text \<open>
  The state of the component: its \<open>useState\<close> cells, the \<open>debounceTimeoutRef\<close>, the
  query string of the address bar with the list of navigations \<open>setSearchParams\<close> has
  made, and the pending timers of the event loop.

  \<open>handleSearchChange\<close> is memoised on \<open>updateUrlParams\<close>, which is memoised on
  \<open>setSearchParams\<close>; it reads \<open>filters\<close> without listing it as a dependency.
  \<open>memo_filters\<close> is the \<open>filters\<close> value the current \<open>handleSearchChange\<close> closes over,
  \<open>memo_searchParams\<close> the query string of the render that created it.
\<close>

record Products_state =
  searchParams :: URLSearchParams
  history :: "URLSearchParams list"
  currentPage :: number
  filters :: ProductFilters
  localSearchValue :: string
  isDeleteModalOpen :: bool
  productToDelete :: "Product option"
  debounceTimeoutRef :: "nat option"
  timers :: "timer list"
  next_timer_id :: nat
  memo_filters :: ProductFilters
  memo_searchParams :: URLSearchParams

definition itemsPerPage :: number where
  "itemsPerPage = Fin 10"

text \<open>The first render, on the query string \<open>url\<close>; timer identifiers start at 1.\<close>

definition first_render :: "URLSearchParams \<Rightarrow> Products_state" where
  "first_render url =
     \<lparr>searchParams = url, history = [], currentPage = Fin 1, filters = no_filters,
      localSearchValue = [], isDeleteModalOpen = False, productToDelete = None,
      debounceTimeoutRef = None, timers = [], next_timer_id = 1,
      memo_filters = no_filters, memo_searchParams = url\<rparr>"

subsection \<open>Initialisation from the URL\<close>

text \<open>\<open>searchParams.get(name) || dflt\<close>.\<close>

definition get_or :: "URLSearchParams \<Rightarrow> string \<Rightarrow> string \<Rightarrow> string" where
  "get_or ps k dflt = (case usp_get ps k of None \<Rightarrow> dflt | Some s \<Rightarrow> str_or s dflt)"

text \<open>\<open>searchParams.get(name) ? parseFloat(searchParams.get(name)!) : undefined\<close>.\<close>

definition price_from_url :: "URLSearchParams \<Rightarrow> string \<Rightarrow> number option" where
  "price_from_url ps k =
     (case usp_get ps k of None \<Rightarrow> None | Some s \<Rightarrow> if s = [] then None else Some (parseFloat s))"

definition mount_effect :: "Products_state \<Rightarrow> Products_state" where
  "mount_effect st =
     (let ps = searchParams st;
          searchFromUrl = get_or ps ''search'' [];
          categoryFromUrl = get_or ps ''category'' [];
          minPriceFromUrl = price_from_url ps ''minPrice'';
          maxPriceFromUrl = price_from_url ps ''maxPrice'';
          inStockFromUrl = (if usp_get ps ''inStock'' = Some ''true'' then Some True else None);
          pageFromUrl = parseInt (get_or ps ''page'' ''1'')
      in st\<lparr>localSearchValue := searchFromUrl,
             filters := \<lparr>search = str_or_undefined searchFromUrl,
                         category = str_or_undefined categoryFromUrl,
                         minPrice = minPriceFromUrl,
                         maxPrice = maxPriceFromUrl,
                         inStock = inStockFromUrl\<rparr>,
             currentPage := pageFromUrl\<rparr>)"

text \<open>The component once mounted on a URL.\<close>

definition initialize :: "URLSearchParams \<Rightarrow> Products_state" where
  "initialize url = mount_effect (first_render url)"

subsection \<open>Writing the URL\<close>

definition setSearchParams :: "URLSearchParams \<Rightarrow> Products_state \<Rightarrow> Products_state" where
  "setSearchParams newParams st = st\<lparr>searchParams := newParams, history := history st @ [newParams]\<rparr>"

text \<open>The \<open>newParams\<close> that \<open>updateUrlParams\<close> builds.\<close>

definition newParams :: "ProductFilters \<Rightarrow> number \<Rightarrow> URLSearchParams" where
  "newParams f pg =
     (let p0 = [];
          p1 = (case search f of None \<Rightarrow> p0 | Some s \<Rightarrow> if s \<noteq> [] then usp_set ''search'' s p0 else p0);
          p2 = (case category f of None \<Rightarrow> p1 | Some s \<Rightarrow> if s \<noteq> [] then usp_set ''category'' s p1 else p1);
          p3 = (case minPrice f of None \<Rightarrow> p2 | Some x \<Rightarrow> usp_set ''minPrice'' (toString x) p2);
          p4 = (case maxPrice f of None \<Rightarrow> p3 | Some x \<Rightarrow> usp_set ''maxPrice'' (toString x) p3);
          p5 = (if inStock f = Some True then usp_set ''inStock'' ''true'' p4 else p4)
      in if num_gt pg (Fin 1) then usp_set ''page'' (toString pg) p5 else p5)"

definition updateUrlParams :: "ProductFilters \<Rightarrow> number \<Rightarrow> Products_state \<Rightarrow> Products_state" where
  "updateUrlParams f pg st = setSearchParams (newParams f pg) st"

subsection \<open>Search box\<close>

definition clearTimeout :: "nat \<Rightarrow> Products_state \<Rightarrow> Products_state" where
  "clearTimeout i st = st\<lparr>timers := filter (\<lambda>tm. timer_id tm \<noteq> i) (timers st)\<rparr>"

text \<open>
  \<open>handleSearchChange(value)\<close> at time \<open>now\<close> (in milliseconds).  The guard
  \<open>if (debounceTimeoutRef.current)\<close> is false for an empty ref and for the identifier 0.
\<close>

definition handleSearchChange :: "string \<Rightarrow> nat \<Rightarrow> Products_state \<Rightarrow> Products_state" where
  "handleSearchChange val now st =
     (let st1 = st\<lparr>localSearchValue := val\<rparr>;
          st2 = (case debounceTimeoutRef st1 of
                   None \<Rightarrow> st1
                 | Some i \<Rightarrow> if i \<noteq> 0 then clearTimeout i st1 else st1);
          i = next_timer_id st2
      in st2\<lparr>timers := timers st2 @
                          [\<lparr>timer_id = i, deadline = now + 300, timer_value = val,
                            timer_filters = memo_filters st2\<rparr>],
              debounceTimeoutRef := Some i,
              next_timer_id := i + 1\<rparr>)"

text \<open>The callback of the timer: the debounced commit.\<close>

definition search_commit :: "timer \<Rightarrow> Products_state \<Rightarrow> Products_state" where
  "search_commit tm st =
     (let newFilters = (timer_filters tm)\<lparr>search := Some (timer_value tm)\<rparr>
      in updateUrlParams newFilters (Fin 1) (st\<lparr>filters := newFilters, currentPage := Fin 1\<rparr>))"

text \<open>
  \<open>clearSearch\<close> lists \<open>filters\<close> among its dependencies and works on the current value.
  Its \<open>setTimeout\<close> only moves the focus and is left out.
\<close>

definition clearSearch :: "Products_state \<Rightarrow> Products_state" where
  "clearSearch st =
     (let newFilters = (filters st)\<lparr>search := None\<rparr>
      in updateUrlParams newFilters (Fin 1)
           (st\<lparr>localSearchValue := [], filters := newFilters, currentPage := Fin 1\<rparr>))"

subsection \<open>Filter panel and pagination\<close>

definition handleFiltersChange :: "ProductFilters \<Rightarrow> Products_state \<Rightarrow> Products_state" where
  "handleFiltersChange newFilters st =
     updateUrlParams newFilters (Fin 1) (st\<lparr>filters := newFilters, currentPage := Fin 1\<rparr>)"

definition handlePageChange :: "number \<Rightarrow> Products_state \<Rightarrow> Products_state" where
  "handlePageChange pg st = updateUrlParams (filters st) pg (st\<lparr>currentPage := pg\<rparr>)"


text \<open>\<open>productsData\<close>, \<open>products\<close> and \<open>pagination\<close> of a render.\<close>

definition productsData :: "QueryClient \<Rightarrow> Products_state \<Rightarrow> ProductsResponse option" where
  "productsData c st = list_queries c (filters st, currentPage st, itemsPerPage)"


definition pagination_of :: "QueryClient \<Rightarrow> Products_state \<Rightarrow> Pagination" where
  "pagination_of c st =
     (case productsData c st of
        None \<Rightarrow> \<lparr>page = currentPage st, limit = itemsPerPage, total = Fin 0, pages = Fin 0\<rparr>
      | Some d \<Rightarrow> pagination d)"







subsection \<open>Deleting a product\<close>


subsection \<open>Events over time\<close>

text \<open>
  A render after a state change.  \<open>url_keyed\<close> says whether the router hands out a new
  \<open>setSearchParams\<close> whenever the query string changes; if it does, \<open>updateUrlParams\<close> and
  \<open>handleSearchChange\<close> are created anew in that render and close over its \<open>filters\<close>.
\<close>

definition render :: "bool \<Rightarrow> Products_state \<Rightarrow> Products_state" where
  "render url_keyed st =
     (if url_keyed \<and> searchParams st \<noteq> memo_searchParams st
      then st\<lparr>memo_filters := filters st, memo_searchParams := searchParams st\<rparr>
      else st)"

text \<open>The timers due at time \<open>now\<close> run in the order in which they were set.\<close>

definition fire_due :: "nat \<Rightarrow> Products_state \<Rightarrow> Products_state" where
  "fire_due now st =
     foldl (\<lambda>s tm. search_commit tm s)
           (st\<lparr>timers := filter (\<lambda>tm. now < deadline tm) (timers st)\<rparr>)
           (filter (\<lambda>tm. deadline tm \<le> now) (timers st))"

datatype event =
    SearchChange string
  | ClearSearch
  | FiltersChange ProductFilters
  | PageChange number

fun handle :: "event \<Rightarrow> nat \<Rightarrow> Products_state \<Rightarrow> Products_state" where
  "handle (SearchChange v) now st = handleSearchChange v now st"
| "handle ClearSearch now st = clearSearch st"
| "handle (FiltersChange f) now st = handleFiltersChange f st"
| "handle (PageChange pg) now st = handlePageChange pg st"

text \<open>The clock reaches \<open>now\<close>: due timers run, then the component renders.\<close>

definition advance :: "bool \<Rightarrow> nat \<Rightarrow> Products_state \<Rightarrow> Products_state" where
  "advance url_keyed now st = render url_keyed (fire_due now st)"

text \<open>An event at time \<open>now\<close>, and a list of timed events in order.\<close>

definition dispatch :: "bool \<Rightarrow> nat \<times> event \<Rightarrow> Products_state \<Rightarrow> Products_state" where
  "dispatch url_keyed te st = render url_keyed (handle (snd te) (fst te) (advance url_keyed (fst te) st))"

definition run :: "bool \<Rightarrow> (nat \<times> event) list \<Rightarrow> Products_state \<Rightarrow> Products_state" where
  "run url_keyed tes st = foldl (\<lambda>s te. dispatch url_keyed te s) st tes"


section \<open>The create-product modal (components/CreateProductModal.tsx)\<close>

text \<open>
  The values of the form.  A number input that is empty is \<open>None\<close>.
\<close>

record CreateProductData =
  form_name :: string
  form_description :: string
  form_sku :: string
  form_category :: string
  form_price :: "number option"
  form_quantity :: "number option"
  form_minStockLevel :: "number option"
  form_images :: "string list"

text \<open>
  The rules given to \<open>register\<close>.  The form library checks a field in this order and
  stops at the first rule that fails: \<open>required\<close> (the value is empty), \<open>min\<close>, then
  \<open>maxLength\<close> and \<open>minLength\<close> together (the message is that of \<open>maxLength\<close> when the
  value is too long), then \<open>validate\<close>.  The result is the message of the field, if any.
\<close>

definition validate_name :: "string \<Rightarrow> string option" where
  "validate_name v =
     (if v = [] then Some ''Product name is required''
      else if 100 < length v then Some ''Product name cannot exceed 100 characters''
      else if 0 < length (trim v) then None
      else Some ''Product name cannot be empty'')"

definition validate_sku :: "string \<Rightarrow> string option" where
  "validate_sku v =
     (if v = [] then Some ''SKU is required''
      else if 50 < length v \<or> length v < 3
      then Some (if 50 < length v then ''SKU cannot exceed 50 characters''
                 else ''SKU must be at least 3 characters'')
      else if 0 < length (trim v) then None
      else Some ''SKU cannot be empty'')"

definition validate_description :: "string \<Rightarrow> string option" where
  "validate_description v =
     (if v \<noteq> [] \<and> 500 < length v then Some ''Description cannot exceed 500 characters'' else None)"

definition validate_category :: "string \<Rightarrow> string option" where
  "validate_category v = (if v = [] then Some ''Category is required'' else None)"

text \<open>\<open>required\<close> and \<open>min\<close> on a number input: the rule \<open>min\<close> fails when \<open>value < min\<close>.\<close>

definition validate_min :: "string \<Rightarrow> number \<Rightarrow> string \<Rightarrow> number option \<Rightarrow> string option" where
  "validate_min required_message bound min_message v =
     (case v of
        None \<Rightarrow> Some required_message
      | Some x \<Rightarrow> if num_gt bound x then Some min_message else None)"

definition validate_price :: "number option \<Rightarrow> string option" where
  "validate_price = validate_min ''Price is required'' (Fin (1 / 100)) ''Price must be greater than 0''"

definition validate_quantity :: "number option \<Rightarrow> string option" where
  "validate_quantity = validate_min ''Quantity is required'' (Fin 0) ''Quantity must be 0 or greater''"

definition validate_minStockLevel :: "number option \<Rightarrow> string option" where
  "validate_minStockLevel =
     validate_min ''Minimum stock level is required'' (Fin 0) ''Minimum stock level must be 0 or greater''"

text \<open>The \<open>errors\<close> object of the form: the message of every field that fails.\<close>

definition field_error :: "string \<Rightarrow> string option \<Rightarrow> (string \<times> string) list" where
  "field_error field r = (case r of None \<Rightarrow> [] | Some msg \<Rightarrow> [(field, msg)])"

definition form_errors :: "CreateProductData \<Rightarrow> (string \<times> string) list" where
  "form_errors d =
     field_error ''name'' (validate_name (form_name d)) @
     field_error ''sku'' (validate_sku (form_sku d)) @
     field_error ''description'' (validate_description (form_description d)) @
     field_error ''category'' (validate_category (form_category d)) @
     field_error ''price'' (validate_price (form_price d)) @
     field_error ''quantity'' (validate_quantity (form_quantity d)) @
     field_error ''minStockLevel'' (validate_minStockLevel (form_minStockLevel d))"

text \<open>
  \<open>handleSubmit(onSubmit)\<close>: with an error the form shows the messages and \<open>onSubmit\<close> is
  not called; without one \<open>onSubmit\<close> sends the create request with the SKU in upper case.
\<close>

datatype submission = Invalid "(string \<times> string) list" | RequestSent CreateProductData

definition onSubmit :: "CreateProductData \<Rightarrow> CreateProductData" where
  "onSubmit d = d\<lparr>form_sku := toUpperCase (form_sku d)\<rparr>"

definition handleSubmit :: "CreateProductData \<Rightarrow> submission" where
  "handleSubmit d = (if form_errors d = [] then RequestSent (onSubmit d) else Invalid (form_errors d))"

section \<open>The create-product page (pages/CreateProduct.tsx)\<close>

text \<open>
  The page has the same form with its own rules: the SKU has \<open>required\<close>, \<open>maxLength\<close>
  and \<open>validate\<close> but no \<open>minLength\<close>, and the three numbers have \<open>min\<close> 0.  The rules of
  name, description and category are those of the modal.  Its \<open>onSubmit\<close> builds the same
  data and passes it to \<open>createProduct\<close> of the store, which sends the create request.
\<close>

definition page_validate_sku :: "string \<Rightarrow> string option" where
  "page_validate_sku v =
     (if v = [] then Some ''SKU is required''
      else if 50 < length v then Some ''SKU cannot exceed 50 characters''
      else if 0 < length (trim v) then None
      else Some ''SKU cannot be empty'')"

definition page_validate_price :: "number option \<Rightarrow> string option" where
  "page_validate_price = validate_min ''Price is required'' (Fin 0) ''Price cannot be negative''"

definition page_validate_quantity :: "number option \<Rightarrow> string option" where
  "page_validate_quantity = validate_min ''Quantity is required'' (Fin 0) ''Quantity cannot be negative''"

definition page_validate_minStockLevel :: "number option \<Rightarrow> string option" where
  "page_validate_minStockLevel =
     validate_min ''Minimum stock level is required'' (Fin 0) ''Minimum stock level cannot be negative''"

definition page_form_errors :: "CreateProductData \<Rightarrow> (string \<times> string) list" where
  "page_form_errors d =
     field_error ''name'' (validate_name (form_name d)) @
     field_error ''sku'' (page_validate_sku (form_sku d)) @
     field_error ''description'' (validate_description (form_description d)) @
     field_error ''category'' (validate_category (form_category d)) @
     field_error ''price'' (page_validate_price (form_price d)) @
     field_error ''quantity'' (page_validate_quantity (form_quantity d)) @
     field_error ''minStockLevel'' (page_validate_minStockLevel (form_minStockLevel d))"

definition page_handleSubmit :: "CreateProductData \<Rightarrow> submission" where
  "page_handleSubmit d =
     (if page_form_errors d = [] then RequestSent (onSubmit d) else Invalid (page_form_errors d))"


section \<open>Sample data\<close>









definition sample_form :: "string \<Rightarrow> CreateProductData" where
  "sample_form sku_text =
     \<lparr>form_name = ''Pen'', form_description = [], form_sku = sku_text, form_category = ''Books'',
      form_price = Some (Fin 10), form_quantity = Some (Fin 3), form_minStockLevel = Some (Fin 5),
      form_images = []\<rparr>"

section \<open>Failed requests\<close>



section \<open>Page range\<close>



section \<open>Bursts of keystrokes\<close>

text \<open>
  A burst: keystrokes \<open>(time, text)\<close> in order of time, each less than 300 ms after the
  one before.
\<close>

fun within_window :: "(nat \<times> string) list \<Rightarrow> bool" where
  "within_window [] = True"
| "within_window [k] = True"
| "within_window (k1 # k2 # ks) = (fst k1 \<le> fst k2 \<and> fst k2 < fst k1 + 300 \<and> within_window (k2 # ks))"

definition keystrokes :: "(nat \<times> string) list \<Rightarrow> (nat \<times> event) list" where
  "keystrokes ks = map (\<lambda>k. (fst k, SearchChange (snd k))) ks"

text \<open>No timer is pending, and the next timer identifier is positive, as in a browser.\<close>

definition idle :: "Products_state \<Rightarrow> bool" where
  "idle st = (timers st = [] \<and> next_timer_id st \<noteq> 0)"

text \<open>
  One timer is pending: the one the ref points to, set by the keystroke \<open>(t, v)\<close>.
\<close>

definition pending :: "Products_state \<Rightarrow> nat \<Rightarrow> string \<Rightarrow> bool" where
  "pending st t v =
     (case timers st of
        [tm] \<Rightarrow> deadline tm = t + 300 \<and> timer_value tm = v \<and> debounceTimeoutRef st = Some (timer_id tm)
               \<and> timer_id tm \<noteq> 0 \<and> next_timer_id st \<noteq> 0
      | _ \<Rightarrow> False)"

text \<open>The filter panel submits the category \<open>Books\<close> and keeps the committed search text.\<close>

definition books_filters :: "string option \<Rightarrow> ProductFilters" where
  "books_filters s = \<lparr>search = s, category = Some ''Books'', minPrice = None, maxPrice = None, inStock = None\<rparr>"

section \<open>States that the URL can carry\<close>

text \<open>
  The URL leaves out an empty search text or category and a stock flag that is not
  \<open>true\<close>, and it holds numbers as text.  A committed state is carried by the URL as it
  is when its search text and category are absent or not empty, its stock flag is absent
  or \<open>true\<close>, its price bounds are absent or numbers other than \<open>NaN\<close>, and its page is a
  whole number from 1 to \<open>10 ^ 21 - 1\<close> (from \<open>10 ^ 21\<close> on \<open>toString\<close> uses the exponent
  notation, of which \<open>parseInt\<close> reads the first digit only).

  A finite number is a finite decimal, as every double is: written with \<open>frac_len\<close>
  digits after the point it is a whole number.
\<close>

definition finite_decimal :: "rat \<Rightarrow> bool" where
  "finite_decimal a = (of_int \<lfloor>a * 10 ^ frac_len a\<rfloor> = a * 10 ^ frac_len a)"

fun is_price :: "number \<Rightarrow> bool" where
  "is_price NaN = False"
| "is_price (Fin a) = finite_decimal a"
| "is_price _ = True"

definition price_ok :: "number option \<Rightarrow> bool" where
  "price_ok p = (case p of None \<Rightarrow> True | Some x \<Rightarrow> is_price x)"

definition whole_page :: "number \<Rightarrow> bool" where
  "whole_page pg = (case pg of Fin q \<Rightarrow> q = of_int \<lfloor>q\<rfloor> \<and> 1 \<le> q \<and> q < 10 ^ 21 | _ \<Rightarrow> False)"

definition url_canonical :: "ProductFilters \<Rightarrow> number \<Rightarrow> bool" where
  "url_canonical f pg =
     (search f \<noteq> Some [] \<and> category f \<noteq> Some [] \<and> inStock f \<noteq> Some False
      \<and> price_ok (minPrice f) \<and> price_ok (maxPrice f) \<and> whole_page pg)"

text \<open>A filter set with every field present, and the one left by typing and deleting a search text.\<close>

definition sample_filters :: ProductFilters where
  "sample_filters =
     \<lparr>search = Some ''pen'', category = Some ''Books'', minPrice = Some (Fin 10),
      maxPrice = Some (Fin (9999 / 100)), inStock = Some True\<rparr>"

definition empty_search_filters :: ProductFilters where
  "empty_search_filters = no_filters\<lparr>search := Some []\<rparr>"

text \<open>A filter set whose search text, category and stock flag are all present and falsy.\<close>

definition falsy_filters :: ProductFilters where
  "falsy_filters =
     \<lparr>search = Some [], category = Some [], minPrice = Some (Fin 5), maxPrice = None,
      inStock = Some False\<rparr>"

section \<open>Cache patches\<close>














section \<open>Failures leave the data alone\<close>





section \<open>Form validation\<close>

lemma map_of_field_error:
  "map_of (field_error f r) k = (if f = k then r else None)"
  by (cases r) (simp_all add: field_error_def)

lemma sku_error: "map_of (form_errors d) ''sku'' = validate_sku (form_sku d)"
  by (simp add: form_errors_def map_of_field_error map_add_def split: option.splits)

lemma sku_error_nonempty: "validate_sku (form_sku d) \<noteq> None \<Longrightarrow> form_errors d \<noteq> []"
  by (auto simp: form_errors_def field_error_def split: option.splits)

text \<open>
  C9, as the code of the create-product modal has it.  In the modal, a form whose SKU
  has fewer than 3 characters is not submitted: no create request is sent.  The message
  of the SKU field is \<open>SKU must be at least 3 characters\<close> when the SKU has 1 or 2
  characters, and \<open>SKU is required\<close> when it is empty.
\<close>

theorem short_sku_rejected:
  assumes "length (form_sku d) < 3"
  shows "handleSubmit d = Invalid (form_errors d)
       \<and> map_of (form_errors d) ''sku''
           = Some (if form_sku d = [] then ''SKU is required'' else ''SKU must be at least 3 characters'')"
proof -
  have v: "validate_sku (form_sku d)
           = Some (if form_sku d = [] then ''SKU is required'' else ''SKU must be at least 3 characters'')"
    using assms by (simp add: validate_sku_def)
  then have "form_errors d \<noteq> []"
    using sku_error_nonempty [of d] by simp
  then show ?thesis
    using v by (simp add: handleSubmit_def sku_error)
qed

theorem short_sku_rejected_witness:
  "length (form_sku (sample_form ''AB'')) < 3
   \<and> handleSubmit (sample_form ''AB'') = Invalid [(''sku'', ''SKU must be at least 3 characters'')]"
proof -
  have l: "length (form_sku (sample_form ''AB'')) < 3"
    by (simp add: sample_form_def)
  have "form_errors (sample_form ''AB'') = [(''sku'', ''SKU must be at least 3 characters'')]"
    by (simp add: form_errors_def sample_form_def field_error_def validate_name_def validate_sku_def
         validate_description_def validate_category_def validate_price_def validate_quantity_def
         validate_minStockLevel_def validate_min_def trim_def is_space_def)
  then show ?thesis
    using short_sku_rejected [OF l] l by simp
qed

text \<open>The empty SKU has fewer than 3 characters and gets the message of \<open>required\<close>.\<close>

theorem short_sku_counterexample:
  "length (form_sku (sample_form [])) < 3
   \<and> map_of (form_errors (sample_form [])) ''sku'' = Some ''SKU is required''
   \<and> ''SKU is required'' \<noteq> ''SKU must be at least 3 characters''"
  by (simp add: sku_error validate_sku_def sample_form_def)

text \<open>A form that passes every rule is sent, with the SKU in upper case.\<close>

lemma valid_form_sent: "handleSubmit (sample_form ''ab1'') = RequestSent (sample_form ''AB1'')"
  by code_simp

text \<open>
  The form of the create-product page has no \<open>minLength\<close> rule: the same input with the
  two-character SKU, which the modal rejects, passes its rules and is sent.
\<close>

lemma page_form_sends_short_sku:
  "handleSubmit (sample_form ''AB'') = Invalid [(''sku'', ''SKU must be at least 3 characters'')]
   \<and> page_handleSubmit (sample_form ''AB'') = RequestSent (sample_form ''AB'')"
  by code_simp

section \<open>Reading and writing the query string\<close>

lemma map_of_filter_other:
  "k' \<noteq> k \<Longrightarrow> map_of (filter (\<lambda>q. fst q \<noteq> k) ps) k' = map_of ps k'"
  by (induction ps) auto

lemma usp_get_set:
  "usp_get (usp_set k v ps) k' = (if k' = k then Some v else usp_get ps k')"
  by (induction ps) (auto simp: usp_get_def map_of_filter_other)

lemma usp_get_Nil: "usp_get [] k = None"
  by (simp add: usp_get_def)

lemma get_newParams_search:
  "usp_get (newParams f pg) ''search'' = (case search f of None \<Rightarrow> None | Some s \<Rightarrow> if s \<noteq> [] then Some s else None)"
  by (simp add: newParams_def Let_def usp_get_set usp_get_Nil del: usp_set.simps split: option.splits)

lemma get_newParams_category:
  "usp_get (newParams f pg) ''category'' = (case category f of None \<Rightarrow> None | Some s \<Rightarrow> if s \<noteq> [] then Some s else None)"
  by (simp add: newParams_def Let_def usp_get_set usp_get_Nil del: usp_set.simps split: option.splits)

lemma get_newParams_minPrice:
  "usp_get (newParams f pg) ''minPrice'' = map_option toString (minPrice f)"
  by (simp add: newParams_def Let_def usp_get_set usp_get_Nil del: usp_set.simps split: option.splits)

lemma get_newParams_maxPrice:
  "usp_get (newParams f pg) ''maxPrice'' = map_option toString (maxPrice f)"
  by (simp add: newParams_def Let_def usp_get_set usp_get_Nil del: usp_set.simps split: option.splits)

lemma get_newParams_inStock:
  "usp_get (newParams f pg) ''inStock'' = (if inStock f = Some True then Some ''true'' else None)"
  by (simp add: newParams_def Let_def usp_get_set usp_get_Nil del: usp_set.simps split: option.splits)

lemma get_newParams_page:
  "usp_get (newParams f pg) ''page'' = (if num_gt pg (Fin 1) then Some (toString pg) else None)"
  by (simp add: newParams_def Let_def usp_get_set usp_get_Nil del: usp_set.simps split: option.splits)

section \<open>Page requests\<close>












section \<open>Deleting the last product of a page\<close>



section \<open>The debounced search\<close>

lemma render_fields [simp]:
  "timers (render uk st) = timers st"
  "history (render uk st) = history st"
  "filters (render uk st) = filters st"
  "currentPage (render uk st) = currentPage st"
  "searchParams (render uk st) = searchParams st"
  "debounceTimeoutRef (render uk st) = debounceTimeoutRef st"
  "next_timer_id (render uk st) = next_timer_id st"
  "localSearchValue (render uk st) = localSearchValue st"
  by (simp_all add: render_def)

lemma pending_render [simp]: "pending (render uk st) t v = pending st t v"
  by (simp add: pending_def cong: list.case_cong)

lemma idle_render [simp]: "idle (render uk st) = idle st"
  by (simp add: idle_def)

lemma fire_due_none:
  "\<forall>tm \<in> set (timers st). now < deadline tm \<Longrightarrow> fire_due now st = st"
proof -
  assume a: "\<forall>tm \<in> set (timers st). now < deadline tm"
  then have "filter (\<lambda>tm. now < deadline tm) (timers st) = timers st"
    by (simp add: filter_id_conv) 
  moreover from a have "filter (\<lambda>tm. deadline tm \<le> now) (timers st) = []"
    by (auto simp: filter_empty_conv)
  ultimately show ?thesis by (simp add: fire_due_def)
qed

lemma handleSearchChange_frame:
  "history (handleSearchChange v now st) = history st"
  "filters (handleSearchChange v now st) = filters st"
  "currentPage (handleSearchChange v now st) = currentPage st"
  "searchParams (handleSearchChange v now st) = searchParams st"
  "localSearchValue (handleSearchChange v now st) = v"
  by (simp_all add: handleSearchChange_def clearTimeout_def Let_def split: option.splits)

lemma handleSearchChange_idle:
  "idle st \<Longrightarrow> pending (handleSearchChange v now st) now v"
  by (auto simp: idle_def pending_def handleSearchChange_def clearTimeout_def Let_def split: option.splits)

lemma handleSearchChange_pending:
  "pending st t u \<Longrightarrow> pending (handleSearchChange v now st) now v"
  by (auto simp: pending_def handleSearchChange_def clearTimeout_def Let_def split: option.splits list.splits)

lemma pending_not_due:
  "pending st t u \<Longrightarrow> now < t + 300 \<Longrightarrow> fire_due now st = st"
  by (rule fire_due_none) (auto simp: pending_def split: list.splits)

lemma idle_not_due: "idle st \<Longrightarrow> fire_due now st = st"
  by (rule fire_due_none) (simp add: idle_def)

lemma keystroke_from_idle:
  assumes "idle st"
  shows "pending (dispatch uk (t, SearchChange v) st) t v"
    and "history (dispatch uk (t, SearchChange v) st) = history st"
    and "localSearchValue (dispatch uk (t, SearchChange v) st) = v"
  using assms
  by (simp_all add: dispatch_def advance_def idle_not_due handleSearchChange_idle handleSearchChange_frame)

lemma keystroke_from_pending:
  assumes "pending st t u" and "t' < t + 300"
  shows "pending (dispatch uk (t', SearchChange v) st) t' v"
    and "history (dispatch uk (t', SearchChange v) st) = history st"
    and "localSearchValue (dispatch uk (t', SearchChange v) st) = v"
  using assms
  by (simp_all add: dispatch_def advance_def pending_not_due handleSearchChange_pending handleSearchChange_frame)

lemma run_Cons: "run uk (te # tes) st = run uk tes (dispatch uk te st)"
  by (simp add: run_def)

lemma run_Nil: "run uk [] st = st"
  by (simp add: run_def)

lemma burst_from_pending:
  assumes "pending st t u" and "within_window ((t, u) # ks)"
  shows "pending (run uk (keystrokes ks) st) (fst (last ((t, u) # ks))) (snd (last ((t, u) # ks)))
       \<and> history (run uk (keystrokes ks) st) = history st
       \<and> localSearchValue (run uk (keystrokes ks) st)
           = (if ks = [] then localSearchValue st else snd (last ks))"
  using assms
proof (induction ks arbitrary: st t u)
  case Nil
  then show ?case by (simp add: keystrokes_def run_Nil)
next
  case (Cons k ks)
  obtain t' v where k: "k = (t', v)" by (cases k)
  from Cons.prems k have w: "t' < t + 300" "within_window ((t', v) # ks)"
    by simp_all
  let ?st = "dispatch uk (t', SearchChange v) st"
  have p: "pending ?st t' v" and h: "history ?st = history st" and l: "localSearchValue ?st = v"
    using keystroke_from_pending [OF Cons.prems(1) w(1)] by simp_all
  from Cons.IH [OF p w(2)] h l k show ?case
    by (simp add: keystrokes_def run_Cons)
qed

lemma commit_fires:
  assumes "pending st t v" and "t + 300 \<le> T"
  shows "timers (advance uk T st) = []"
    and "history (advance uk T st) = history st @ [searchParams (advance uk T st)]"
    and "search (filters (advance uk T st)) = Some v"
    and "currentPage (advance uk T st) = Fin 1"
    and "localSearchValue (advance uk T st) = localSearchValue st"
    and "searchParams (advance uk T st) = newParams (filters (advance uk T st)) (Fin 1)"
  using assms
  by (auto simp: pending_def advance_def fire_due_def search_commit_def updateUrlParams_def
      setSearchParams_def Let_def split: list.splits)

text \<open>
  C2.  The component is idle; keystrokes arrive, each less than 300 ms after the one
  before; then the clock reaches 300 ms after the last one.  Exactly one commit has
  happened: the history of navigations has one more entry, the URL of the committed
  state.  The committed search text is the last text typed, the page is 1, the input
  shows the last text and no timer is left.  This holds whether or not the router hands
  out a new \<open>setSearchParams\<close> on a URL change.
\<close>

theorem debounced_search_commit:
  assumes "ks \<noteq> []" and "within_window ks" and "idle st" and "fst (last ks) + 300 \<le> T"
  shows "history (advance uk T (run uk (keystrokes ks) st))
           = history st @ [searchParams (advance uk T (run uk (keystrokes ks) st))]
       \<and> search (filters (advance uk T (run uk (keystrokes ks) st))) = Some (snd (last ks))
       \<and> currentPage (advance uk T (run uk (keystrokes ks) st)) = Fin 1
       \<and> localSearchValue (advance uk T (run uk (keystrokes ks) st)) = snd (last ks)
       \<and> timers (advance uk T (run uk (keystrokes ks) st)) = []
       \<and> searchParams (advance uk T (run uk (keystrokes ks) st))
           = newParams (filters (advance uk T (run uk (keystrokes ks) st))) (Fin 1)"
proof -
  from assms(1) obtain k ks' where ks: "ks = k # ks'" by (cases ks) auto
  obtain t v where k: "k = (t, v)" by (cases k)
  let ?s1 = "dispatch uk (t, SearchChange v) st"
  have p1: "pending ?s1 t v" and h1: "history ?s1 = history st" and l1: "localSearchValue ?s1 = v"
    using keystroke_from_idle [OF assms(3)] by simp_all
  have w: "within_window ((t, v) # ks')" using assms(2) ks k by simp
  let ?s2 = "run uk (keystrokes ks') ?s1"
  have r: "run uk (keystrokes ks) st = ?s2"
    by (simp add: ks k keystrokes_def run_Cons)
  from burst_from_pending [OF p1 w, of uk]
  have p2: "pending ?s2 (fst (last ks)) (snd (last ks))"
    and h2: "history ?s2 = history st"
    and l2: "localSearchValue ?s2 = snd (last ks)"
    using ks k h1 l1 by (auto simp: run_Nil keystrokes_def)
  from commit_fires [OF p2 assms(4), of uk] h2 l2 r show ?thesis
    by simp
qed

theorem debounced_search_commit_witness:
  "[(0, ''a''), (50, ''ab'')] \<noteq> []
   \<and> within_window [(0, ''a''), (50, ''ab'')]
   \<and> idle (initialize [])
   \<and> fst (last [(0 :: nat, ''a''), (50, ''ab'')]) + 300 \<le> (350 :: nat)
   \<and> history (advance False 350 (run False (keystrokes [(0, ''a''), (50, ''ab'')]) (initialize [])))
        = [[(''search'', ''ab'')]]
   \<and> search (filters (advance False 350 (run False (keystrokes [(0, ''a''), (50, ''ab'')]) (initialize []))))
        = Some ''ab''
   \<and> currentPage (advance False 350 (run False (keystrokes [(0, ''a''), (50, ''ab'')]) (initialize [])))
        = Fin 1"
proof -
  have n: "[(0 :: nat, ''a''), (50, ''ab'')] \<noteq> []"
    by simp
  have w: "within_window [(0, ''a''), (50, ''ab'')]"
    by simp
  have i: "idle (initialize [])"
    by code_simp
  have t: "fst (last [(0 :: nat, ''a''), (50, ''ab'')]) + 300 \<le> (350 :: nat)"
    by simp
  have h: "history (initialize []) = []"
    by code_simp
  have u: "newParams (no_filters\<lparr>search := Some ''ab''\<rparr>) (Fin 1) = [(''search'', ''ab'')]"
    by code_simp
  have f: "filters (advance False 350 (run False (keystrokes [(0, ''a''), (50, ''ab'')]) (initialize [])))
           = no_filters\<lparr>search := Some ''ab''\<rparr>"
    by code_simp
  show ?thesis
    using debounced_search_commit [OF n w i t, of False] n w i t h u f
    by simp
qed

section \<open>The debounced commit and the other filters\<close>

text \<open>
  C10 asks that the commit leaves category, prices and stock flag as they are when it
  fires.  The code does not: the callback of the timer writes the \<open>filters\<close> that
  \<open>handleSearchChange\<close> closed over.  Here the user types \<open>a\<close> at time 0 and submits the
  category \<open>Books\<close> from the filter panel at time 100; the category is in force until
  the timer fires at time 300, and gone afterwards, from the state and from the URL.
  Both kinds of router give the same result.
\<close>

theorem search_commit_drops_filters:
  "category (filters (run True [(0, SearchChange ''a''), (100, FiltersChange (books_filters None))] (initialize [])))
     = Some ''Books''
   \<and> filters (advance True 300 (run True [(0, SearchChange ''a''), (100, FiltersChange (books_filters None))] (initialize [])))
     = no_filters\<lparr>search := Some ''a''\<rparr>
   \<and> searchParams (advance True 300 (run True [(0, SearchChange ''a''), (100, FiltersChange (books_filters None))] (initialize [])))
     = [(''search'', ''a'')]
   \<and> category (filters (run False [(0, SearchChange ''a''), (100, FiltersChange (books_filters None))] (initialize [])))
     = Some ''Books''
   \<and> filters (advance False 300 (run False [(0, SearchChange ''a''), (100, FiltersChange (books_filters None))] (initialize [])))
     = no_filters\<lparr>search := Some ''a''\<rparr>"
  by code_simp

text \<open>
  The same loss without any filter submission: the page is opened on \<open>?category=Books\<close>
  and the user types \<open>a\<close>.  The first render created \<open>handleSearchChange\<close> before the URL
  was read, so the commit writes the empty filter set with the search text.
\<close>

lemma search_commit_drops_url_filters:
  "filters (initialize [(''category'', ''Books'')]) = books_filters None
   \<and> filters (advance True 300 (run True [(0, SearchChange ''a'')] (initialize [(''category'', ''Books'')])))
     = no_filters\<lparr>search := Some ''a''\<rparr>
   \<and> filters (advance False 300 (run False [(0, SearchChange ''a'')] (initialize [(''category'', ''Books'')])))
     = no_filters\<lparr>search := Some ''a''\<rparr>"
  by code_simp

section \<open>Numbers as text\<close>

lemma digit_char_props:
  assumes "0 \<le> d" and "d < 10"
  shows "is_digit (digit_char d)" and "digit_val (digit_char d) = d"
  using assms by (simp_all add: is_digit_def digit_val_def digit_char_def)

lemma digits_of_all_digits: "0 \<le> n \<Longrightarrow> c \<in> set (digits_of n) \<Longrightarrow> is_digit c"
proof (induction n arbitrary: c rule: digits_of.induct)
  case (1 n)
  show ?case
  proof (cases "n < 10")
    case True
    with "1.prems" show ?thesis
      by (simp add: digits_of.simps [of n] digit_char_props)
  next
    case False
    then have "0 \<le> n div 10" "0 \<le> n mod 10" "n mod 10 < 10" by simp_all
    with "1.prems" "1.IH" False show ?thesis
      by (auto simp: digits_of.simps [of n] digit_char_props)
  qed
qed

lemma digit_char_0: "digit_char 0 = CHR ''0''"
  by code_simp

lemma digits_val_snoc: "digits_val (ds @ [c]) = 10 * digits_val ds + digit_val c"
  by (simp add: digits_val_def)

lemma digits_val_digits_of: "0 \<le> n \<Longrightarrow> digits_val (digits_of n) = n"
proof (induction n rule: digits_of.induct)
  case (1 n)
  show ?case
  proof (cases "n < 10")
    case True
    with "1.prems" show ?thesis
      by (simp add: digits_of.simps [of n] digits_val_def digit_char_props)
  next
    case False
    then have "0 \<le> n div 10" "0 \<le> n mod 10" "n mod 10 < 10" by simp_all
    with "1.IH" False show ?thesis
      by (simp add: digits_of.simps [of n] digits_val_snoc digit_char_props)
  qed
qed

lemma digits_of_nonempty: "digits_of n \<noteq> []"
  by (subst digits_of.simps) simp

lemma length_digits_of: "0 \<le> n \<Longrightarrow> n < 10 ^ k \<Longrightarrow> 0 < k \<Longrightarrow> length (digits_of n) \<le> k"
proof (induction n arbitrary: k rule: digits_of.induct)
  case (1 n)
  show ?case
  proof (cases "n < 10")
    case True
    with "1.prems" show ?thesis
      by (simp add: digits_of.simps [of n] Suc_leI)
  next
    case False
    obtain j where k: "k = Suc j" using "1.prems"(3) by (cases k) auto
    have "j \<noteq> 0" using False "1.prems"(2) k by (cases j) auto
    moreover have "n div 10 < 10 ^ j" using "1.prems"(2) k by simp
    moreover have "0 \<le> n div 10" using False by simp
    ultimately have "length (digits_of (n div 10)) \<le> j"
      using "1.IH" [of j] False by simp
    with False k show ?thesis
      by (simp add: digits_of.simps [of n])
  qed
qed

lemma rev_dropWhile_pad:
  "rev (dropWhile (\<lambda>c. c = z) xs) @ replicate (length xs - length (dropWhile (\<lambda>c. c = z) xs)) z = rev xs"
proof (induction xs)
  case Nil
  then show ?case by simp
next
  case (Cons x xs)
  show ?case
  proof (cases "x = z")
    case True
    have "length (dropWhile (\<lambda>c. c = z) xs) \<le> length xs"
      by (rule length_dropWhile_le)
    then have "Suc (length xs) - length (dropWhile (\<lambda>c. c = z) xs)
               = Suc (length xs - length (dropWhile (\<lambda>c. c = z) xs))"
      by simp
    moreover have "replicate (Suc k) z = replicate k z @ [z]" for k
      by (simp add: replicate_append_same)
    ultimately show ?thesis
      using True Cons.IH by (simp del: replicate_Suc)
  next
    case False
    then show ?thesis by simp
  qed
qed

lemma strip_trailing_zeros_pad:
  "strip_trailing_zeros ds @ replicate (length ds - length (strip_trailing_zeros ds)) CHR ''0'' = ds"
  using rev_dropWhile_pad [of "CHR ''0''" "rev ds"] by (simp add: strip_trailing_zeros_def)

lemma length_strip_trailing_zeros: "length (strip_trailing_zeros ds) \<le> length ds"
  by (simp add: strip_trailing_zeros_def length_dropWhile_le [of _ "rev ds", simplified])

lemma factor_count_1: "factor_count b 1 = 0"
  by (subst factor_count.simps) auto

lemma frac_len_int: "frac_len (of_int n) = 0"
  by (simp add: frac_len_def factor_count_1)

lemma sig_digits_int:
  "0 < n \<Longrightarrow> sig_digits (of_int n) = (strip_trailing_zeros (digits_of n), int (length (digits_of n)))"
  by (simp add: sig_digits_def frac_len_int)

lemma pos_toString_int:
  assumes "0 < n" and "n < 10 ^ 21"
  shows "pos_toString (of_int n) = digits_of n"
proof -
  have l: "length (digits_of n) \<le> 21"
    using assms by (intro length_digits_of) simp_all
  have s: "length (strip_trailing_zeros (digits_of n)) \<le> length (digits_of n)"
    by (rule length_strip_trailing_zeros)
  have "nat (int (length (digits_of n)) - int (length (strip_trailing_zeros (digits_of n))))
        = length (digits_of n) - length (strip_trailing_zeros (digits_of n))"
    by simp
  with l s show ?thesis
    using assms(1) by (simp add: pos_toString_def sig_digits_int strip_trailing_zeros_pad)
qed

lemma toString_int:
  assumes "0 \<le> n" and "n < 10 ^ 21"
  shows "toString (Fin (of_int n)) = digits_of n"
proof (cases "n = 0")
  case True
  then show ?thesis by (simp add: digits_of.simps [of 0] digit_char_0)
next
  case False
  with assms have "0 < n" by simp
  with assms(2) show ?thesis by (simp add: pos_toString_int)
qed

lemma digit_not_special:
  "is_digit c \<Longrightarrow> \<not> is_space c \<and> c \<noteq> CHR ''-'' \<and> c \<noteq> CHR ''+'' \<and> c \<noteq> CHR ''I''"
  by (auto simp: is_digit_def is_space_def)

lemma take_sign_digit: "is_digit c \<Longrightarrow> take_sign (c # cs) = (False, c # cs)"
  using digit_not_special [of c] by simp

lemma parseInt_digits:
  assumes "ds \<noteq> []" and "\<forall>c \<in> set ds. is_digit c"
  shows "parseInt ds = Fin (of_int (digits_val ds))"
proof -
  from assms(1) obtain c cs where ds: "ds = c # cs" by (cases ds) auto
  with assms(2) have c: "is_digit c" by simp
  have t: "takeWhile is_digit ds = ds"
    using assms(2) by (simp add: takeWhile_eq_all_conv)
  have d: "dropWhile is_space ds = ds"
    using digit_not_special [OF c] ds by simp
  have s: "take_sign ds = (False, ds)"
    using take_sign_digit [OF c] ds by simp
  show ?thesis
    unfolding parseInt_def d s Let_def prod.case t using assms(1) by simp
qed

lemma parseInt_toString_int:
  assumes "0 \<le> n" and "n < 10 ^ 21"
  shows "parseInt (toString (Fin (of_int n))) = Fin (of_int n)"
proof -
  have ts: "toString (Fin (of_int n)) = digits_of n"
    using assms by (rule toString_int)
  have "parseInt (digits_of n) = Fin (of_int n)"
    using assms(1) parseInt_digits [of "digits_of n"] digits_of_all_digits [of n]
    by (simp add: digits_of_nonempty digits_val_digits_of)
  then show ?thesis
    unfolding ts .
qed

subsection \<open>Reading back what \<open>toString\<close> prints\<close>

lemma digits_val_append:
  "digits_val (xs @ ys) = digits_val xs * 10 ^ length ys + digits_val ys"
proof (induction ys rule: rev_induct)
  case Nil
  then show ?case by (simp add: digits_val_def)
next
  case (snoc y ys)
  have "digits_val (xs @ ys @ [y]) = 10 * digits_val (xs @ ys) + digit_val y"
    using digits_val_snoc [of "xs @ ys" y] by simp
  also have "\<dots> = 10 * (digits_val xs * 10 ^ length ys + digits_val ys) + digit_val y"
    by (simp add: snoc.IH)
  finally show ?case
    by (simp add: digits_val_snoc algebra_simps)
qed

lemma digit_val_zero: "digit_val CHR ''0'' = 0"
  by (simp add: digit_val_def)

lemma is_digit_zero: "is_digit CHR ''0''"
  by (simp add: is_digit_def)

lemma digits_val_zeros: "digits_val (replicate z CHR ''0'') = 0"
  by (induction z) (simp_all add: digits_val_def digit_val_zero)

lemma digits_val_Nil: "digits_val [] = 0"
  by (simp add: digits_val_def)

lemma digits_val_zeros_append: "digits_val (replicate z CHR ''0'' @ xs) = digits_val xs"
  by (simp add: digits_val_append digits_val_zeros)

lemma digits_val_append_zeros: "digits_val (xs @ replicate t CHR ''0'') = digits_val xs * 10 ^ t"
  by (simp add: digits_val_append digits_val_zeros)

lemma strip_decomp:
  obtains t where "ds = strip_trailing_zeros ds @ replicate t CHR ''0''"
    and "length ds = length (strip_trailing_zeros ds) + t"
proof -
  let ?t = "length ds - length (strip_trailing_zeros ds)"
  have "ds = strip_trailing_zeros ds @ replicate ?t CHR ''0''"
    by (simp add: strip_trailing_zeros_pad)
  moreover have "length ds = length (strip_trailing_zeros ds) + ?t"
    using length_strip_trailing_zeros [of ds] by simp
  ultimately show ?thesis using that by blast
qed

lemma set_strip_trailing_zeros: "set (strip_trailing_zeros ds) \<subseteq> set ds"
  using set_dropWhileD [of _ "\<lambda>c. c = CHR ''0''" "rev ds"] by (auto simp: strip_trailing_zeros_def)

lemma leading_zeros_decomp:
  "ds = replicate (length (takeWhile (\<lambda>c. c = CHR ''0'') ds)) CHR ''0''
        @ drop (length (takeWhile (\<lambda>c. c = CHR ''0'') ds)) ds"
proof -
  let ?P = "\<lambda>c. c = CHR ''0''"
  have "takeWhile ?P ds = replicate (length (takeWhile ?P ds)) CHR ''0''"
    by (induction ds) simp_all
  moreover have "drop (length (takeWhile ?P ds)) ds = dropWhile ?P ds"
    by (simp add: dropWhile_eq_drop)
  ultimately show ?thesis
    by (metis takeWhile_dropWhile_id)
qed

lemma pad_left_props:
  assumes "length ds \<le> e"
  shows "length (pad_left e ds) = e" and "digits_val (pad_left e ds) = digits_val ds"
  using assms by (simp_all add: pad_left_def digits_val_zeros_append)

lemma set_pad_left: "set (pad_left e ds) \<subseteq> insert CHR ''0'' (set ds)"
  by (auto simp: pad_left_def)

lemma ten_powi_diff: "(10 :: rat) ^ t / 10 ^ e = 10 powi (int t - int e)"
  by (simp add: power_int_diff)

lemma sig_digits_value:
  assumes "0 < a" and "finite_decimal a" and "sig_digits a = (s, n)"
  shows "s \<noteq> []"
    and "\<forall>c \<in> set s. is_digit c"
    and "a = of_int (digits_val s) * 10 powi (n - int (length s))"
proof -
  define e where "e = frac_len a"
  define M where "M = \<lfloor>a * 10 ^ e\<rfloor>"
  define ip where "ip = M div 10 ^ e"
  define fr where "fr = M mod 10 ^ e"
  define fd where "fd = (if e = 0 then [] else pad_left e (digits_of fr))"
  have aM: "of_int M = a * 10 ^ e"
    using assms(2) by (simp add: finite_decimal_def M_def e_def)
  then have a: "a = of_int M / 10 ^ e"
    by simp
  have Mpos: "0 < M"
  proof -
    have "0 < a * 10 ^ e" using assms(1) by simp
    then have "(0 :: rat) < of_int M" using aM by simp
    then show ?thesis by simp
  qed
  have fr: "0 \<le> fr" "fr < 10 ^ e"
    by (simp_all add: fr_def)
  have M: "M = ip * 10 ^ e + fr"
    unfolding ip_def fr_def by (rule div_mult_mod_eq [symmetric])
  have ip0: "0 \<le> ip"
    using Mpos by (simp add: ip_def pos_imp_zdiv_nonneg_iff)
  have fd_len: "length fd = e" and fd_val: "digits_val fd = fr" and fd_digits: "\<forall>c \<in> set fd. is_digit c"
  proof -
    show "length fd = e"
    proof (cases "e = 0")
      case True
      then show ?thesis by (simp add: fd_def)
    next
      case False
      then have "length (digits_of fr) \<le> e"
        using fr by (intro length_digits_of) simp_all
      with False show ?thesis by (simp add: fd_def pad_left_props)
    qed
    show "digits_val fd = fr"
    proof (cases "e = 0")
      case True
      then show ?thesis using fr by (simp add: fd_def digits_val_Nil)
    next
      case False
      then have "length (digits_of fr) \<le> e"
        using fr by (intro length_digits_of) simp_all
      with False fr show ?thesis by (simp add: fd_def pad_left_props digits_val_digits_of)
    qed
    show "\<forall>c \<in> set fd. is_digit c"
      using set_pad_left [of e "digits_of fr"] digits_of_all_digits [OF fr(1)] is_digit_zero
      by (auto simp: fd_def)
  qed
  have sd: "sig_digits a =
     (if 0 < ip
      then (strip_trailing_zeros (digits_of ip @ fd), int (length (digits_of ip)))
      else (strip_trailing_zeros (drop (length (takeWhile (\<lambda>c. c = CHR ''0'') fd)) fd),
            - int (length (takeWhile (\<lambda>c. c = CHR ''0'') fd))))"
    unfolding sig_digits_def Let_def
    by (simp only: e_def [symmetric] M_def [symmetric] ip_def [symmetric] fr_def [symmetric]
        fd_def [symmetric])
  have key: "\<exists>t. M = digits_val s * 10 ^ t \<and> n - int (length s) = int t - int e
                 \<and> (\<forall>c \<in> set s. is_digit c)"
  proof (cases "0 < ip")
    case True
    let ?D = "digits_of ip @ fd"
    from True sd assms(3) have s: "s = strip_trailing_zeros ?D" and n: "n = int (length (digits_of ip))"
      by simp_all
    obtain t where t: "?D = s @ replicate t CHR ''0''" "length ?D = length s + t"
      using strip_decomp [of ?D] s by metis
    have "digits_val ?D = M"
      using ip0 by (simp add: digits_val_append fd_len fd_val digits_val_digits_of M)
    then have "M = digits_val s * 10 ^ t"
      using t(1) digits_val_append_zeros [of s t] by simp
    moreover have "n - int (length s) = int t - int e"
      using t(2) n fd_len by simp
    moreover have "\<forall>c \<in> set s. is_digit c"
      using set_strip_trailing_zeros [of ?D] digits_of_all_digits [OF ip0] fd_digits s by auto
    ultimately show ?thesis by blast
  next
    case False
    let ?z = "length (takeWhile (\<lambda>c. c = CHR ''0'') fd)"
    let ?R = "drop ?z fd"
    from False sd assms(3) have s: "s = strip_trailing_zeros ?R" and n: "n = - int ?z"
      by simp_all
    from False ip0 have "ip = 0" by simp
    then have Mfr: "M = fr" using M by simp
    have fdz: "fd = replicate ?z CHR ''0'' @ ?R"
      by (rule leading_zeros_decomp)
    obtain t where t: "?R = s @ replicate t CHR ''0''" "length ?R = length s + t"
      using strip_decomp [of ?R] s by metis
    have "digits_val fd = digits_val ?R"
      using fdz digits_val_zeros_append [of ?z ?R] by simp
    then have "M = digits_val s * 10 ^ t"
      using t(1) digits_val_append_zeros [of s t] Mfr fd_val by simp
    moreover have "length fd = ?z + length ?R"
      using fdz by (metis length_append length_replicate)
    then have "n - int (length s) = int t - int e"
      using t(2) n fd_len by simp
    moreover have "\<forall>c \<in> set s. is_digit c"
      using set_strip_trailing_zeros [of ?R] fd_digits s by (auto dest: in_set_dropD)
    ultimately show ?thesis by blast
  qed
  then obtain t where t: "M = digits_val s * 10 ^ t" "n - int (length s) = int t - int e"
    and d: "\<forall>c \<in> set s. is_digit c"
    by blast
  show "\<forall>c \<in> set s. is_digit c" by (rule d)
  show "s \<noteq> []"
    using t(1) Mpos by (auto simp: digits_val_Nil)
  have "a = of_int (digits_val s) * (10 ^ t / 10 ^ e)"
    using a t(1) by simp
  then show "a = of_int (digits_val s) * 10 powi (n - int (length s))"
    by (simp only: ten_powi_diff t(2))
qed

lemma takeWhile_digits_append:
  assumes "\<forall>c \<in> set ds. is_digit c" and "r = [] \<or> \<not> is_digit (hd r)"
  shows "takeWhile is_digit (ds @ r) = ds" and "dropWhile is_digit (ds @ r) = r"
proof -
  have "takeWhile is_digit r = []"
    using assms(2) by (cases r) auto
  then show "takeWhile is_digit (ds @ r) = ds"
    using assms(1) by (simp add: takeWhile_append2)
  have "dropWhile is_digit r = r"
    using assms(2) by (cases r) auto
  then show "dropWhile is_digit (ds @ r) = r"
    using assms(1) by (simp add: dropWhile_append2)
qed

lemma exponent_part_suffix: "exponent_part (exponent_suffix k) = k"
proof -
  have t: "takeWhile is_digit (digits_of m) = digits_of m" if "0 \<le> m" for m
    using digits_of_all_digits [OF that] by (simp add: takeWhile_eq_all_conv)
  show ?thesis
  proof (cases "0 \<le> k")
    case True
    then show ?thesis
      by (simp add: exponent_suffix_def Let_def t digits_val_digits_of digits_of_nonempty)
  next
    case False
    then have "0 \<le> - k" by simp
    with False show ?thesis
      by (simp add: exponent_suffix_def Let_def t digits_val_digits_of digits_of_nonempty)
  qed
qed

lemma exponent_suffix_head: "\<exists>w. exponent_suffix k = CHR ''e'' # w"
  by (simp add: exponent_suffix_def)

lemma not_digit_e: "\<not> is_digit CHR ''e''" and not_digit_dot: "\<not> is_digit CHR ''.''"
  by (simp_all add: is_digit_def)

lemma not_Infinity:
  assumes "is_digit (hd u)"
  shows "take 8 u \<noteq> ''Infinity''"
proof
  assume "take 8 u = ''Infinity''"
  then have "hd u = CHR ''I''"
    by (cases u) auto
  with assms show False
    by (simp add: is_digit_def)
qed

lemma parse_unsigned_whole:
  assumes "ip \<noteq> []" and "\<forall>c \<in> set ip. is_digit c" and "ex = [] \<or> ex = exponent_suffix k"
  shows "parse_unsigned neg (ip @ ex)
         = Fin (if neg then - (of_int (digits_val ip) * 10 powi exponent_part ex)
                else of_int (digits_val ip) * 10 powi exponent_part ex)"
proof -
  have h: "is_digit (hd (ip @ ex))"
    using assms(1,2) by (cases ip) auto
  have e: "ex = [] \<or> \<not> is_digit (hd ex)"
    using assms(3) exponent_suffix_head [of k] not_digit_e by auto
  have t: "takeWhile is_digit (ip @ ex) = ip" "dropWhile is_digit (ip @ ex) = ex"
    using takeWhile_digits_append [OF assms(2) e] by simp_all
  have c: "(case ex of [] \<Rightarrow> ([], ex)
            | c # r \<Rightarrow> if c = CHR ''.'' then (takeWhile is_digit r, dropWhile is_digit r) else ([], ex))
           = ([], ex)"
    using assms(3) exponent_suffix_head [of k] by (cases ex) auto
  show ?thesis
    unfolding parse_unsigned_def Let_def t c prod.case
    using not_Infinity [OF h] assms(1) by simp
qed

lemma parse_unsigned_fraction:
  assumes "ip \<noteq> []" and "\<forall>c \<in> set ip. is_digit c" and "\<forall>c \<in> set fp. is_digit c"
    and "ex = [] \<or> ex = exponent_suffix k"
  shows "parse_unsigned neg (ip @ CHR ''.'' # fp @ ex)
         = Fin (if neg then - (of_int (digits_val (ip @ fp)) / 10 ^ length fp * 10 powi exponent_part ex)
                else of_int (digits_val (ip @ fp)) / 10 ^ length fp * 10 powi exponent_part ex)"
proof -
  let ?u = "ip @ CHR ''.'' # fp @ ex"
  have h: "is_digit (hd ?u)"
    using assms(1,2) by (cases ip) auto
  have e: "ex = [] \<or> \<not> is_digit (hd ex)"
    using assms(4) exponent_suffix_head [of k] not_digit_e by auto
  have t: "takeWhile is_digit ?u = ip" "dropWhile is_digit ?u = CHR ''.'' # fp @ ex"
    using takeWhile_digits_append [OF assms(2), of "CHR ''.'' # fp @ ex"] not_digit_dot by simp_all
  have f: "takeWhile is_digit (fp @ ex) = fp" "dropWhile is_digit (fp @ ex) = ex"
    using takeWhile_digits_append [OF assms(3) e] by simp_all
  show ?thesis
    unfolding parse_unsigned_def Let_def t list.case if_True f prod.case
    using not_Infinity [OF h] assms(1) by simp
qed

lemma ten_powi_nonneg: "0 \<le> m \<Longrightarrow> (10 :: rat) powi m = 10 ^ nat m"
  by (simp add: power_int_def)

lemma ten_powi_div: "(v :: rat) * 10 powi x / 10 ^ j = v * 10 powi (x - int j)"
  by (simp add: power_int_diff)

lemma parse_pos_toString:
  assumes "0 < a" and "finite_decimal a"
  shows "parse_unsigned neg (pos_toString a) = Fin (if neg then - a else a)"
    and "pos_toString a \<noteq> []"
    and "is_digit (hd (pos_toString a))"
proof -
  obtain s n where sn: "sig_digits a = (s, n)"
    by (cases "sig_digits a")
  define k where "k = int (length s)"
  define v :: rat where "v = of_int (digits_val s)"
  note sig = sig_digits_value [OF assms sn]
  have s: "s \<noteq> []" and d: "\<forall>c \<in> set s. is_digit c" and a: "a = v * 10 powi (n - k)"
    using sig by (simp_all add: k_def v_def)
  have hs: "is_digit (hd s)"
    using s d by (cases s) auto
  have k1: "1 \<le> k"
    using s by (cases s) (simp_all add: k_def)
  consider (A) "k \<le> n" "n \<le> 21"
    | (B) "\<not> (k \<le> n \<and> n \<le> 21)" "0 < n" "n \<le> 21"
    | (C) "\<not> (k \<le> n \<and> n \<le> 21)" "\<not> (0 < n \<and> n \<le> 21)" "- 6 < n" "n \<le> 0"
    | (D) "\<not> (k \<le> n \<and> n \<le> 21)" "\<not> (0 < n \<and> n \<le> 21)" "\<not> (- 6 < n \<and> n \<le> 0)" "k = 1"
    | (E) "\<not> (k \<le> n \<and> n \<le> 21)" "\<not> (0 < n \<and> n \<le> 21)" "\<not> (- 6 < n \<and> n \<le> 0)" "k \<noteq> 1"
    by blast
  then have "parse_unsigned neg (pos_toString a) = Fin (if neg then - a else a)
             \<and> pos_toString a \<noteq> [] \<and> is_digit (hd (pos_toString a))"
  proof cases
    case A
    let ?out = "s @ replicate (nat (n - k)) CHR ''0''"
    have o: "pos_toString a = ?out"
      using A by (simp add: pos_toString_def sn k_def)
    have dd: "\<forall>c \<in> set ?out. is_digit c"
      using d is_digit_zero by auto
    have "parse_unsigned neg (?out @ []) =
          Fin (if neg then - (of_int (digits_val ?out) * 10 powi exponent_part [])
               else of_int (digits_val ?out) * 10 powi exponent_part [])"
      by (rule parse_unsigned_whole [where k = 0]) (use s dd in simp_all)
    moreover have "of_int (digits_val ?out) = a"
      using A(1) by (simp add: digits_val_append_zeros a v_def ten_powi_nonneg)
    ultimately show ?thesis
      using o s hs by simp
  next
    case B
    then have nk: "n < k" by auto
    let ?ip = "take (nat n) s" and ?fp = "drop (nat n) s"
    have o: "pos_toString a = ?ip @ CHR ''.'' # ?fp @ []"
      using B by (simp add: pos_toString_def sn k_def)
    have ip: "?ip \<noteq> []"
      using B(2) s by simp
    have dd: "\<forall>c \<in> set ?ip. is_digit c" "\<forall>c \<in> set ?fp. is_digit c"
      using d by (auto dest: in_set_takeD in_set_dropD)
    have p: "parse_unsigned neg (?ip @ CHR ''.'' # ?fp @ []) =
          Fin (if neg then - (of_int (digits_val (?ip @ ?fp)) / 10 ^ length ?fp * 10 powi exponent_part [])
               else of_int (digits_val (?ip @ ?fp)) / 10 ^ length ?fp * 10 powi exponent_part [])"
      by (rule parse_unsigned_fraction [where k = 0]) (use ip dd in simp_all)
    have "int (length ?fp) = k - n"
      using nk B(2) by (simp add: k_def)
    then have "v / 10 ^ length ?fp = v * 10 powi (n - k)"
      using ten_powi_div [of v 0 "length ?fp"] by simp
    then have "of_int (digits_val (?ip @ ?fp)) / 10 ^ length ?fp * 10 powi exponent_part [] = a"
      by (simp add: a v_def)
    with p have "parse_unsigned neg (?ip @ CHR ''.'' # ?fp @ []) = Fin (if neg then - a else a)"
      by simp
    moreover have "hd (?ip @ CHR ''.'' # ?fp @ []) = hd s"
      using ip by (simp add: hd_append)
    ultimately show ?thesis
      using o hs by simp
  next
    case C
    let ?fp = "replicate (nat (- n)) CHR ''0'' @ s"
    have o: "pos_toString a = ''0'' @ CHR ''.'' # ?fp @ []"
      using C by (simp add: pos_toString_def sn k_def)
    have dd: "\<forall>c \<in> set ?fp. is_digit c"
      using d is_digit_zero by auto
    have p: "parse_unsigned neg (''0'' @ CHR ''.'' # ?fp @ []) =
          Fin (if neg then - (of_int (digits_val (''0'' @ ?fp)) / 10 ^ length ?fp * 10 powi exponent_part [])
               else of_int (digits_val (''0'' @ ?fp)) / 10 ^ length ?fp * 10 powi exponent_part [])"
      by (rule parse_unsigned_fraction [where k = 0]) (use dd is_digit_zero in simp_all)
    have "digits_val (''0'' @ ?fp) = digits_val s"
      using digits_val_zeros_append [of "Suc (nat (- n))" s] by simp
    moreover have "int (length ?fp) = k - n"
      using C(4) by (simp add: k_def)
    then have "v / 10 ^ length ?fp = v * 10 powi (n - k)"
      using ten_powi_div [of v 0 "length ?fp"] by simp
    ultimately have "of_int (digits_val (''0'' @ ?fp)) / 10 ^ length ?fp * 10 powi exponent_part [] = a"
      by (simp add: a v_def)
    with p have "parse_unsigned neg (''0'' @ CHR ''.'' # ?fp @ []) = Fin (if neg then - a else a)"
      by simp
    then show ?thesis
      using o is_digit_zero by simp
  next
    case D
    have "pos_toString a = (if int (length s) = 1 then s @ exponent_suffix (n - 1)
                            else take 1 s @ CHR ''.'' # drop 1 s @ exponent_suffix (n - 1))"
      using D(1,2,3) [unfolded k_def]
      by (simp only: pos_toString_def sn Let_def prod.case if_False)
    then have o: "pos_toString a = s @ exponent_suffix (n - 1)"
      using D(4) by (simp add: k_def)
    have "parse_unsigned neg (s @ exponent_suffix (n - 1)) =
          Fin (if neg then - (of_int (digits_val s) * 10 powi exponent_part (exponent_suffix (n - 1)))
               else of_int (digits_val s) * 10 powi exponent_part (exponent_suffix (n - 1)))"
      by (rule parse_unsigned_whole [where k = "n - 1"]) (use s d in simp_all)
    moreover have "of_int (digits_val s) * 10 powi exponent_part (exponent_suffix (n - 1)) = a"
      using D(4) by (simp add: exponent_part_suffix a v_def)
    ultimately show ?thesis
      using o s hs by simp
  next
    case E
    let ?ip = "take 1 s" and ?fp = "drop 1 s"
    have "pos_toString a = (if int (length s) = 1 then s @ exponent_suffix (n - 1)
                            else take 1 s @ CHR ''.'' # drop 1 s @ exponent_suffix (n - 1))"
      using E(1,2,3) [unfolded k_def]
      by (simp only: pos_toString_def sn Let_def prod.case if_False)
    then have o: "pos_toString a = ?ip @ CHR ''.'' # ?fp @ exponent_suffix (n - 1)"
      using E(4) by (simp add: k_def)
    have ip: "?ip \<noteq> []"
      using s by simp
    have dd: "\<forall>c \<in> set ?ip. is_digit c" "\<forall>c \<in> set ?fp. is_digit c"
      using d by (auto dest: in_set_takeD in_set_dropD)
    have p: "parse_unsigned neg (?ip @ CHR ''.'' # ?fp @ exponent_suffix (n - 1)) =
          Fin (if neg then - (of_int (digits_val (?ip @ ?fp)) / 10 ^ length ?fp
                               * 10 powi exponent_part (exponent_suffix (n - 1)))
               else of_int (digits_val (?ip @ ?fp)) / 10 ^ length ?fp
                               * 10 powi exponent_part (exponent_suffix (n - 1)))"
      by (rule parse_unsigned_fraction [where k = "n - 1"]) (use ip dd in simp_all)
    have "int (length ?fp) = k - 1"
      using k1 by (simp add: k_def)
    then have "v * 10 powi (n - 1) / 10 ^ length ?fp = v * 10 powi (n - k)"
      using ten_powi_div [of v "n - 1" "length ?fp"] by simp
    then have "of_int (digits_val (?ip @ ?fp)) / 10 ^ length ?fp
                 * 10 powi exponent_part (exponent_suffix (n - 1)) = a"
      by (simp add: exponent_part_suffix a v_def)
    with p have "parse_unsigned neg (?ip @ CHR ''.'' # ?fp @ exponent_suffix (n - 1))
                 = Fin (if neg then - a else a)"
      by simp
    moreover have "hd (?ip @ CHR ''.'' # ?fp @ exponent_suffix (n - 1)) = hd s"
      using s by (cases s) simp_all
    ultimately show ?thesis
      using o hs by simp
  qed
  then show "parse_unsigned neg (pos_toString a) = Fin (if neg then - a else a)"
    and "pos_toString a \<noteq> []"
    and "is_digit (hd (pos_toString a))"
    by simp_all
qed

lemma parseFloat_unsigned:
  assumes "u \<noteq> []" and "is_digit (hd u)"
  shows "parseFloat u = parse_unsigned False u"
    and "parseFloat (CHR ''-'' # u) = parse_unsigned True u"
proof -
  from assms obtain c cs where u: "u = c # cs" and c: "is_digit c"
    by (cases u) auto
  show "parseFloat u = parse_unsigned False u"
    using digit_not_special [OF c] by (simp add: parseFloat_def u)
  show "parseFloat (CHR ''-'' # u) = parse_unsigned True u"
    by (simp add: parseFloat_def is_space_def)
qed

lemma finite_decimal_minus: "finite_decimal (- a) = finite_decimal a"
proof -
  have "frac_len (- a) = frac_len a"
    by (cases "quotient_of a") (simp add: frac_len_def rat_uminus_code)
  moreover have "(of_int \<lfloor>- x\<rfloor> = - x) = (of_int \<lfloor>x\<rfloor> = x)" for x :: rat
    by (metis add.inverse_inverse floor_of_int of_int_minus)
  ultimately show ?thesis
    using finite_decimal_def by (metis mult_minus_left)
qed

text \<open>
  \<open>parseFloat\<close> reads back every number other than \<open>NaN\<close> from the text that \<open>toString\<close>
  prints for it, and that text is not empty.
\<close>

lemma parseFloat_toString:
  assumes "is_price x"
  shows "parseFloat (toString x) = x"
proof (cases x)
  case (Fin q)
  with assms have fd: "finite_decimal q" by simp
  consider "q = 0" | "0 < q" | "q < 0" by linarith
  then show ?thesis
  proof cases
    case 1
    have "parseFloat ''0'' = Fin 0" by code_simp
    with 1 Fin show ?thesis by simp
  next
    case 2
    have "parseFloat (pos_toString q) = Fin q"
      using parse_pos_toString(1) [OF 2 fd, of False] parse_pos_toString(2,3) [OF 2 fd]
        parseFloat_unsigned(1) [of "pos_toString q"]
      by simp
    with 2 Fin show ?thesis by simp
  next
    case 3
    then have p: "0 < - q" by simp
    have m: "finite_decimal (- q)" using fd by (simp add: finite_decimal_minus)
    have "parseFloat (CHR ''-'' # pos_toString (- q)) = Fin q"
      using parse_pos_toString(1) [OF p m, of True] parse_pos_toString(2,3) [OF p m]
        parseFloat_unsigned(2) [of "pos_toString (- q)"]
      by simp
    with 3 Fin show ?thesis by simp
  qed
next
  case NaN
  with assms show ?thesis by simp
next
  case PInf
  have "parseFloat ''Infinity'' = PInf" by code_simp
  with PInf show ?thesis by simp
next
  case NInf
  have "parseFloat ''-Infinity'' = NInf" by code_simp
  with NInf show ?thesis by simp
qed

lemma toString_nonempty:
  assumes "is_price x"
  shows "toString x \<noteq> []"
proof (cases x)
  case (Fin q)
  with assms have fd: "finite_decimal q" by simp
  consider "q = 0" | "0 < q" | "q < 0" by linarith
  then show ?thesis
  proof cases
    case 2
    with Fin parse_pos_toString(2) [OF 2 fd] show ?thesis by simp
  qed (use Fin in simp_all)
qed (use assms in simp_all)

subsection \<open>Every finite decimal passes the test\<close>

lemma factor_count_decomp:
  "1 < b \<Longrightarrow> 0 < q \<Longrightarrow> \<exists>r. q = b ^ factor_count b q * r \<and> \<not> b dvd r \<and> 0 < r"
proof (induction b q rule: factor_count.induct)
  case (1 b q)
  show ?case
  proof (cases "q mod b = 0")
    case True
    then have q: "q = b * (q div b)" by auto
    have pos: "0 < q div b"
      using "1.prems" q by (metis zero_less_mult_pos less_trans zero_less_one)
    from "1.IH" "1.prems" True pos
    obtain r where r: "q div b = b ^ factor_count b (q div b) * r" "\<not> b dvd r" "0 < r"
      by auto
    have "factor_count b q = Suc (factor_count b (q div b))"
      using "1.prems" True by (subst factor_count.simps) simp
    moreover have "q = b * (b ^ factor_count b (q div b) * r)"
      using q r(1) by simp
    ultimately have "q = b ^ factor_count b q * r"
      by (simp add: mult.assoc)
    with r(2,3) show ?thesis
      by blast
  next
    case False
    then have "factor_count b q = 0"
      by (subst factor_count.simps) simp
    with False "1.prems" show ?thesis
      by (auto simp: dvd_eq_mod_eq_0)
  qed
qed

lemma power_dvd_factor_count:
  "1 < b \<Longrightarrow> 0 < q \<Longrightarrow> b ^ x dvd q \<Longrightarrow> x \<le> factor_count b q"
proof (induction x arbitrary: q)
  case 0
  then show ?case by simp
next
  case (Suc x)
  from Suc.prems(3) obtain c where c: "q = b * b ^ x * c"
    by (auto simp: dvd_def)
  then have d: "q mod b = 0" "q div b = b ^ x * c"
    using Suc.prems(1) by (simp_all add: mult.assoc)
  have "0 < q div b"
    using Suc.prems(1,2) c d(2) by (metis mult.assoc zero_less_mult_pos less_trans zero_less_one)
  moreover have "b ^ x dvd q div b"
    using d(2) by simp
  ultimately have "x \<le> factor_count b (q div b)"
    using Suc.IH Suc.prems(1) by blast
  moreover have "factor_count b q = Suc (factor_count b (q div b))"
    using Suc.prems(1,2) d(1) by (subst factor_count.simps) simp
  ultimately show ?case by simp
qed

lemma coprime_5:
  assumes "\<not> 5 dvd (r :: int)"
  shows "coprime r 5"
proof -
  define g where "g = gcd r 5"
  have g5: "g dvd 5" and gr: "g dvd r" by (simp_all add: g_def)
  have "0 < g" by (simp add: g_def)
  moreover have "g \<le> 5" using g5 by (simp add: zdvd_imp_le)
  ultimately have "g = 1 \<or> g = 2 \<or> g = 3 \<or> g = 4 \<or> g = 5" by arith
  with g5 gr assms have "g = 1" by auto
  then show ?thesis by (simp add: g_def coprime_iff_gcd_eq_1)
qed

lemma dvd_ten_power_bound:
  assumes "0 < (q :: int)" and "q dvd 10 ^ e"
  shows "q dvd 10 ^ max (factor_count 2 q) (factor_count 5 q)"
proof -
  let ?i = "factor_count 2 q"
  obtain r1 where r1: "q = 2 ^ ?i * r1" "\<not> 2 dvd r1" "0 < r1"
    using factor_count_decomp [of 2 q] assms(1) by auto
  let ?j = "factor_count 5 r1"
  obtain r2 where r2: "r1 = 5 ^ ?j * r2" "\<not> 5 dvd r2" "0 < r2"
    using factor_count_decomp [of 5 r1] r1(3) by auto
  have "r2 dvd r1" using r2(1) by (metis dvd_triv_right)
  then have odd: "\<not> 2 dvd r2" using r1(2) by (meson dvd_trans)
  have "r1 dvd q" using r1(1) by (metis dvd_triv_right)
  with \<open>r2 dvd r1\<close> have "r2 dvd q" by (rule dvd_trans)
  then have "r2 dvd 10 ^ e" using assms(2) by (rule dvd_trans)
  moreover have "coprime r2 (10 ^ e)"
  proof -
    have "coprime r2 2" using odd by (simp add: coprime_right_2_iff_odd)
    moreover have "coprime r2 5" using r2(2) by (rule coprime_5)
    ultimately have "coprime r2 (2 * 5)" by (simp only: coprime_mult_right_iff)
    then have "coprime r2 10" by simp
    then show ?thesis by simp
  qed
  ultimately have "r2 dvd 1"
    using coprime_dvd_mult_right_iff [of r2 "10 ^ e" 1] by simp
  with r2(3) have "r2 = 1" by simp
  with r1(1) r2(1) have q: "q = 2 ^ ?i * 5 ^ ?j" by simp
  then have "5 ^ ?j dvd q" by (metis dvd_triv_right)
  then have j: "?j \<le> factor_count 5 q"
    using power_dvd_factor_count [of 5 q ?j] assms(1) by simp
  let ?E = "max ?i (factor_count 5 q)"
  have "(2 :: int) ^ ?i dvd 2 ^ ?E" "(5 :: int) ^ ?j dvd 5 ^ ?E"
    using j by (simp_all add: le_imp_power_dvd)
  then have "(2 :: int) ^ ?i * 5 ^ ?j dvd 2 ^ ?E * 5 ^ ?E"
    by (rule mult_dvd_mono)
  moreover have "(2 :: int) ^ ?E * 5 ^ ?E = 10 ^ ?E"
    by (simp add: power_mult_distrib [symmetric])
  ultimately have "(2 :: int) ^ ?i * 5 ^ ?j dvd 10 ^ ?E"
    by simp
  then show ?thesis
    by (subst q)
qed

text \<open>A whole number divided by a power of 10 is a finite decimal in the sense of \<open>finite_decimal\<close>.\<close>

lemma finite_decimal_complete:
  assumes "a = of_int m / 10 ^ e"
  shows "finite_decimal a"
proof -
  obtain p q where pq: "quotient_of a = (p, q)" by (cases "quotient_of a")
  then have q: "0 < q" and cop: "coprime p q" and a: "a = of_int p / of_int q"
    by (simp_all add: quotient_of_denom_pos quotient_of_coprime quotient_of_div)
  have "of_int p / of_int q = (of_int m / 10 ^ e :: rat)"
    using a assms by simp
  then have "(of_int p * 10 ^ e :: rat) = of_int m * of_int q"
    using q by (simp add: field_simps)
  then have "(of_int (p * 10 ^ e) :: rat) = of_int (m * q)"
    by simp
  then have "p * 10 ^ e = m * q"
    by (simp only: of_int_eq_iff)
  then have "q dvd p * 10 ^ e"
    by simp
  then have "q dvd 10 ^ e"
    using cop by (simp add: coprime_dvd_mult_right_iff coprime_commute)
  then have "q dvd 10 ^ frac_len a"
    using dvd_ten_power_bound [OF q] by (simp add: frac_len_def pq)
  then obtain c where c: "10 ^ frac_len a = q * c"
    by (auto simp: dvd_def)
  have "a * 10 ^ frac_len a = of_int p / of_int q * of_int (10 ^ frac_len a)"
    using a by simp
  also have "\<dots> = of_int (p * c)"
    using q by (simp add: c)
  finally have "a * 10 ^ frac_len a = of_int (p * c)" .
  then show ?thesis
    by (simp add: finite_decimal_def)
qed

lemma finite_decimal_int: "finite_decimal (of_int n)"
  using finite_decimal_complete [of "of_int n" n 0] by simp


section \<open>The URL round trip\<close>

lemma parseInt_one: "parseInt ''1'' = Fin 1"
  by code_simp

lemma price_from_url_round_trip:
  assumes "price_ok p" and "usp_get ps k = map_option toString p"
  shows "price_from_url ps k = p"
proof (cases p)
  case None
  with assms(2) show ?thesis by (simp add: price_from_url_def)
next
  case (Some x)
  with assms(1) have "is_price x"
    by (simp add: price_ok_def)
  then have "toString x \<noteq> []" "parseFloat (toString x) = x"
    by (rule toString_nonempty, rule parseFloat_toString)
  with Some assms(2) show ?thesis by (simp add: price_from_url_def)
qed

lemma text_round_trip:
  assumes "t \<noteq> Some []"
    and "usp_get ps k = (case t of None \<Rightarrow> None | Some s \<Rightarrow> if s \<noteq> [] then Some s else None)"
  shows "str_or_undefined (get_or ps k []) = t"
    and "get_or ps k [] = (case t of None \<Rightarrow> [] | Some s \<Rightarrow> s)"
  using assms by (cases t; simp add: get_or_def str_or_undefined_def str_or_def)+

lemma whole_page_cases:
  assumes "whole_page pg"
  obtains n where "pg = Fin (of_int n)" and "1 \<le> n" and "n < 10 ^ 21"
proof -
  from assms obtain q where q: "pg = Fin q" "q = of_int \<lfloor>q\<rfloor>" "1 \<le> q" "q < 10 ^ 21"
    by (cases pg) (auto simp: whole_page_def)
  have "1 \<le> \<lfloor>q\<rfloor>" using q(3) by simp
  moreover have "\<lfloor>q\<rfloor> < 10 ^ 21"
  proof -
    have "(of_int \<lfloor>q\<rfloor> :: rat) < of_int (10 ^ 21)" using q(2,4) by simp
    then show ?thesis by (simp only: of_int_less_iff)
  qed
  ultimately show ?thesis using q(1,2) that by metis
qed

lemma page_round_trip:
  assumes "whole_page pg"
  shows "parseInt (get_or (newParams f pg) ''page'' ''1'') = pg"
    and "usp_get (newParams f pg) ''page'' = None \<longleftrightarrow> pg = Fin 1"
proof -
  from assms obtain n where n: "pg = Fin (of_int n)" "1 \<le> n" "n < 10 ^ 21"
    by (rule whole_page_cases)
  have g: "num_gt pg (Fin 1) \<longleftrightarrow> n \<noteq> 1"
    using n by auto
  have ts: "toString pg \<noteq> []" "parseInt (toString pg) = pg"
    using n toString_int [of n] parseInt_toString_int [of n] by (simp_all add: digits_of_nonempty)
  show "parseInt (get_or (newParams f pg) ''page'' ''1'') = pg"
    using g ts n by (simp add: get_or_def get_newParams_page str_or_def parseInt_one)
  show "usp_get (newParams f pg) ''page'' = None \<longleftrightarrow> pg = Fin 1"
    using g n by (simp add: get_newParams_page)
qed

lemma searchParams_updateUrlParams: "searchParams (updateUrlParams f pg st) = newParams f pg"
  by (simp add: updateUrlParams_def setSearchParams_def)

lemma text_read_back:
  assumes "usp_get ps k = (case t of None \<Rightarrow> None | Some s \<Rightarrow> if s \<noteq> [] then Some s else None)"
  shows "str_or_undefined (get_or ps k []) = (if t = Some [] then None else t)"
  using assms by (cases t) (simp_all add: get_or_def str_or_undefined_def str_or_def)

lemma filters_initialize:
  "search (filters (initialize ps)) = str_or_undefined (get_or ps ''search'' [])"
  "category (filters (initialize ps)) = str_or_undefined (get_or ps ''category'' [])"
  "minPrice (filters (initialize ps)) = price_from_url ps ''minPrice''"
  "maxPrice (filters (initialize ps)) = price_from_url ps ''maxPrice''"
  "inStock (filters (initialize ps)) = (if usp_get ps ''inStock'' = Some ''true'' then Some True else None)"
  "currentPage (initialize ps) = parseInt (get_or ps ''page'' ''1'')"
  "localSearchValue (initialize ps) = get_or ps ''search'' []"
  unfolding initialize_def mount_effect_def Let_def
  by (simp_all add: first_render_def)

text \<open>
  C1, as the code has it.  Reading the URL that \<open>updateUrlParams\<close> writes for a state
  gives, for every state, the search text, the category and the stock flag of the state,
  except that an empty search text, an empty category and the stock flag \<open>false\<close> are
  read as absent: the URL leaves them out.  For a state that the URL can carry
  (\<open>url_canonical\<close>: none of these three, prices that are numbers, a whole page from 1)
  it gives the same filter set and the same page; the search input shows the search
  text; the URL has no \<open>page\<close> exactly when the page is 1.
\<close>

theorem url_round_trip:
  "search (filters (initialize (searchParams (updateUrlParams f pg st))))
     = (if search f = Some [] then None else search f)
   \<and> category (filters (initialize (searchParams (updateUrlParams f pg st))))
     = (if category f = Some [] then None else category f)
   \<and> inStock (filters (initialize (searchParams (updateUrlParams f pg st))))
     = (if inStock f = Some False then None else inStock f)
   \<and> (url_canonical f pg \<longrightarrow>
        filters (initialize (searchParams (updateUrlParams f pg st))) = f
        \<and> currentPage (initialize (searchParams (updateUrlParams f pg st))) = pg
        \<and> localSearchValue (initialize (searchParams (updateUrlParams f pg st)))
            = (case search f of None \<Rightarrow> [] | Some s \<Rightarrow> s)
        \<and> (usp_get (searchParams (updateUrlParams f pg st)) ''page'' = None \<longleftrightarrow> pg = Fin 1))"
proof -
  let ?ps = "newParams f pg"
  let ?R = "initialize ?ps"
  have s: "search (filters ?R) = (if search f = Some [] then None else search f)"
    using text_read_back [OF get_newParams_search] by (simp add: filters_initialize)
  have ca: "category (filters ?R) = (if category f = Some [] then None else category f)"
    using text_read_back [OF get_newParams_category] by (simp add: filters_initialize)
  have i: "inStock (filters ?R) = (if inStock f = Some False then None else inStock f)"
    by (cases "inStock f") (auto simp: filters_initialize get_newParams_inStock)
  have c: "filters ?R = f \<and> currentPage ?R = pg
           \<and> localSearchValue ?R = (case search f of None \<Rightarrow> [] | Some s \<Rightarrow> s)
           \<and> (usp_get ?ps ''page'' = None \<longleftrightarrow> pg = Fin 1)"
    if u: "url_canonical f pg"
  proof -
    from u have c: "search f \<noteq> Some []" "category f \<noteq> Some []" "inStock f \<noteq> Some False"
      "price_ok (minPrice f)" "price_ok (maxPrice f)" "whole_page pg"
      by (simp_all add: url_canonical_def)
    have mi: "minPrice (filters ?R) = minPrice f"
      using price_from_url_round_trip [OF c(4) get_newParams_minPrice] by (simp add: filters_initialize)
    have ma: "maxPrice (filters ?R) = maxPrice f"
      using price_from_url_round_trip [OF c(5) get_newParams_maxPrice] by (simp add: filters_initialize)
    have "filters ?R = f"
      using s ca i mi ma c(1,2,3) by (intro ProductFilters.equality) simp_all
    moreover have "localSearchValue ?R = (case search f of None \<Rightarrow> [] | Some s \<Rightarrow> s)"
      using text_round_trip(2) [OF c(1) get_newParams_search] by (simp add: filters_initialize)
    moreover have "currentPage ?R = pg"
      using page_round_trip(1) [OF c(6), of f] by (simp add: filters_initialize)
    ultimately show ?thesis
      using page_round_trip(2) [OF c(6), of f] by simp
  qed
  show ?thesis
    using s ca i c by (simp add: searchParams_updateUrlParams)
qed

lemma sample_filters_canonical: "url_canonical sample_filters (Fin 3)"
  by code_simp

theorem url_round_trip_witness:
  "url_canonical sample_filters (Fin 3)
   \<and> searchParams (updateUrlParams sample_filters (Fin 3) (initialize []))
       = [(''search'', ''pen''), (''category'', ''Books''), (''minPrice'', ''10''),
          (''maxPrice'', ''99.99''), (''inStock'', ''true''), (''page'', ''3'')]
   \<and> filters (initialize [(''search'', ''pen''), (''category'', ''Books''), (''minPrice'', ''10''),
          (''maxPrice'', ''99.99''), (''inStock'', ''true''), (''page'', ''3'')]) = sample_filters
   \<and> currentPage (initialize [(''search'', ''pen''), (''category'', ''Books''), (''minPrice'', ''10''),
          (''maxPrice'', ''99.99''), (''inStock'', ''true''), (''page'', ''3'')]) = Fin 3
   \<and> searchParams (updateUrlParams falsy_filters (Fin 1) (initialize [])) = [(''minPrice'', ''5'')]
   \<and> search (filters (initialize [(''minPrice'', ''5'')])) = None
   \<and> category (filters (initialize [(''minPrice'', ''5'')])) = None
   \<and> inStock (filters (initialize [(''minPrice'', ''5'')])) = None"
proof -
  have u: "searchParams (updateUrlParams sample_filters (Fin 3) (initialize []))
       = [(''search'', ''pen''), (''category'', ''Books''), (''minPrice'', ''10''),
          (''maxPrice'', ''99.99''), (''inStock'', ''true''), (''page'', ''3'')]"
    by code_simp
  have v: "searchParams (updateUrlParams falsy_filters (Fin 1) (initialize [])) = [(''minPrice'', ''5'')]"
    by code_simp
  have w: "search falsy_filters = Some []" "category falsy_filters = Some []"
    "inStock falsy_filters = Some False"
    by (simp_all add: falsy_filters_def)
  show ?thesis
    using url_round_trip [of sample_filters "Fin 3" "initialize []"] sample_filters_canonical
      url_round_trip [of falsy_filters "Fin 1" "initialize []"]
    unfolding u v w by simp
qed

text \<open>
  Typing a text and deleting it commits the empty search text (\<open>search: ''\<close>).  The URL
  written for that state has no \<open>search\<close>, and reading it gives an absent search text:
  the state read differs from the state written.
\<close>

lemma empty_search_is_committed:
  "filters (advance True 400 (run True [(0, SearchChange ''a''), (100, SearchChange [])] (initialize [])))
     = empty_search_filters
   \<and> filters (advance False 400 (run False [(0, SearchChange ''a''), (100, SearchChange [])] (initialize [])))
     = empty_search_filters"
  by code_simp

theorem url_round_trip_counterexample:
  "searchParams (updateUrlParams empty_search_filters (Fin 1) (initialize [])) = []
   \<and> search empty_search_filters = Some []
   \<and> search (filters (initialize (searchParams (updateUrlParams empty_search_filters (Fin 1) (initialize []))))) = None
   \<and> filters (initialize (searchParams (updateUrlParams empty_search_filters (Fin 1) (initialize []))))
       \<noteq> empty_search_filters"
proof -
  have a: "searchParams (updateUrlParams empty_search_filters (Fin 1) (initialize [])) = []"
    and b: "search empty_search_filters = Some []"
    and c: "search (filters (initialize (searchParams (updateUrlParams empty_search_filters (Fin 1) (initialize []))))) = None"
    by code_simp+
  from b c have "filters (initialize (searchParams (updateUrlParams empty_search_filters (Fin 1) (initialize []))))
       \<noteq> empty_search_filters"
    by auto
  with a b c show ?thesis
    by simp
qed

section \<open>Malformed values in the URL\<close>

text \<open>
  C5 asks that a malformed value is read as absent.  Reading the URL never fails, and a
  stock flag other than \<open>true\<close> is read as absent; but a price that is not a number is
  read as \<open>NaN\<close>, not as absent, and so is a page that is not a number: \<open>parseFloat\<close> and
  \<open>parseInt\<close> are applied to every text that is not empty and their result is not checked.
\<close>

theorem malformed_price_is_NaN:
  "minPrice (filters (initialize [(''minPrice'', ''abc'')])) = Some NaN
   \<and> maxPrice (filters (initialize [(''maxPrice'', ''cheap'')])) = Some NaN
   \<and> currentPage (initialize [(''page'', ''two'')]) = NaN
   \<and> inStock (filters (initialize [(''inStock'', ''yes'')])) = None"
  by code_simp

text \<open>The \<open>NaN\<close> then reaches the address bar with the next navigation.\<close>

lemma malformed_price_reaches_url:
  "searchParams (handlePageChange (Fin 2) (initialize [(''minPrice'', ''abc'')]))
     = [(''minPrice'', ''NaN''), (''page'', ''2'')]"
  by code_simp

end
